theory Spec2Isabelle
  imports Complex_Main "HOL-Library.Multiset"
begin

section \<open>Data model (src/models/Token.ts, src/models/Slot.ts)\<close>

datatype PatientSource = WALKIN | FOLLOWUP | ONLINE | REFERRAL | EMERGENCY

datatype TokenFlexibility = HIGH | MEDIUM | LOW

datatype TokenStatus =
  REQUESTED | QUEUED | ALLOCATED | CANCELLED | NO_SHOW | COMPLETED | REQUEUED

datatype SlotStatus = AVAILABLE | FULL | BLOCKED

text \<open>
  A valid \<open>Date\<close> is its millisecond value (\<open>getTime()\<close>), an integer. A \<open>number\<close> that
  the code computes with or takes from a request (a score, a capacity, a delay) is the
  real value of a double; a \<open>number\<close> that only counts or indexes (a length, an index, an
  emergency count) is a natural number.
  The field \<open>id\<close> of a token is \<open>id_t\<close>, the one of a doctor \<open>id_d\<close>; the field
  \<open>status\<close> of a slot is \<open>status_s\<close>.
\<close>

record Token =
  id_t :: string
  patientName :: string
  patientAge :: nat
  source :: PatientSource
  status :: TokenStatus
  doctorId :: "string option"
  slotIndex :: "nat option"
  priorityScore :: real
  requestedAt :: int
  allocatedAt :: "int option"
  completedAt :: "int option"
  flexibility :: "TokenFlexibility option"

record Slot =
  startTime :: int
  endTime :: int
  capacity :: real
  allocatedTokenIds :: "string list"
  status_s :: SlotStatus
  emergencyCount :: nat

section \<open>Numbers: doubles and dates\<close>

text \<open>
  Rounding to the nearest integer, ties to the even one.
\<close>

definition roundEven :: "real \<Rightarrow> int" where
  "roundEven x =
     (let f = \<lfloor>x\<rfloor>; d = x - of_int f
      in if d < 1 / 2 then f else if 1 / 2 < d then f + 1 else if even f then f else f + 1)"

text \<open>
  Rounding a positive real to 53 significant bits: it is scaled by powers of two into the
  range from \<open>2^52\<close> to \<open>2^53\<close>, rounded to an integer there, and scaled back. The fuel
  bounds the number of scalings.
\<close>

fun roundAt :: "nat \<Rightarrow> real \<Rightarrow> real" where
  "roundAt fuel x =
     (if fuel = 0 then x
      else if 2 ^ 53 \<le> x then 2 * roundAt (fuel - 1) (x / 2)
      else if x < 2 ^ 52 then roundAt (fuel - 1) (2 * x) / 2
      else of_int (roundEven x))"

declare roundAt.simps [simp del]

text \<open>
  The double that an arithmetic operation of the source returns when its exact result is
  \<open>x\<close>: the nearest double, ties to even. This is the IEEE result for every magnitude
  between \<open>2^-1022\<close> and \<open>2^1024\<close> (1100 scalings reach all of them); the scores, the
  capacities and the times of this program are in that range.
\<close>

definition toDouble :: "real \<Rightarrow> real" where
  "toDouble x = (if x = 0 then 0 else if x < 0 then - roundAt 1100 (- x) else roundAt 1100 x)"

text \<open>
  \<open>new Date(v)\<close>: the time value is \<open>v\<close> truncated to an integer, and the date is invalid
  (\<open>None\<close>) when \<open>v\<close> is beyond 8.64e15 milliseconds from the epoch.
\<close>

definition timeClip :: "real \<Rightarrow> int option" where
  "timeClip v =
     (if \<bar>v\<bar> \<le> 8640000000000000 then Some (if v < 0 then - \<lfloor>- v\<rfloor> else \<lfloor>v\<rfloor>) else None)"

section \<open>Priority model (src/engine/priorityCalculator.ts)\<close>

fun basePriority :: "PatientSource \<Rightarrow> real" where
  "basePriority EMERGENCY = 1000"
| "basePriority REFERRAL = 500"
| "basePriority FOLLOWUP = 300"
| "basePriority ONLINE = 100"
| "basePriority WALKIN = 0"

definition calculatePriority :: "Token \<Rightarrow> real" where
  "calculatePriority token =
     (let tiebreaker = toDouble (- real_of_int (requestedAt token) / 1000000000)
      in toDouble (basePriority (source token) + tiebreaker))"

text \<open>The tier of a class in the 5-tier system of the priority rules: a higher tier is a
  higher class (EMERGENCY highest, WALKIN lowest).\<close>

fun tier :: "PatientSource \<Rightarrow> nat" where
  "tier EMERGENCY = 4"
| "tier REFERRAL = 3"
| "tier FOLLOWUP = 2"
| "tier ONLINE = 1"
| "tier WALKIN = 0"

section \<open>Doctor, token objects and queues\<close>

text \<open>
  Modelled from the spec: the interface \<open>Doctor\<close> of the imports (models/Doctor) is not
  among the sources. A provider owns an ordered list of slots and has an optional per-slot
  and an optional per-day ceiling on emergencies; these, with the identity, are the fields
  that the engine reads. The working hours, the slot duration and the slot capacity of a
  provider are read by the slot generator only.
\<close>

record Doctor =
  id_d :: string
  slots :: "Slot list"
  maxEmergenciesPerSlot :: "nat option"
  maxEmergenciesPerDay :: "nat option"

text \<open>
  Tokens are mutable objects shared between the token map, the queues and the caller, so
  they live in a store: a reference is a natural number, \<open>heap\<close> gives the object behind
  it. A queue is a list of references; the token map of the callers
  (\<open>Map<string, Token>\<close>) is a map from identities to references. The state of one call
  is the doctor object it works on, the token store and the queues of the queue manager.
  A parameter \<open>doctorId\<close> of the source is \<open>dId\<close> here, and \<open>now\<close> is the value that
  \<open>new Date()\<close> reads during the call.
\<close>

type_synonym tref = nat

record engine_state =
  doctor :: Doctor
  heap :: "tref \<Rightarrow> Token"
  queues :: "string \<rightharpoonup> tref list"

datatype error = NotEmergency | TypeError

section \<open>Queue manager (src/engine/queueManager.ts)\<close>

text \<open>The insertion point of \<open>enqueue\<close>: the first position whose entry has a strictly
  lower score than \<open>p\<close>, the length of the queue when there is none.\<close>

fun insertIndex :: "(tref \<Rightarrow> Token) \<Rightarrow> real \<Rightarrow> tref list \<Rightarrow> nat" where
  "insertIndex h p [] = 0"
| "insertIndex h p (x # xs) =
     (if p > priorityScore (h x) then 0 else Suc (insertIndex h p xs))"

definition enqueue :: "string \<Rightarrow> tref \<Rightarrow> engine_state \<Rightarrow> engine_state" where
  "enqueue dId token st =
     (let queue = (case queues st dId of None \<Rightarrow> [] | Some q \<Rightarrow> q);
          i = insertIndex (heap st) (priorityScore (heap st token)) queue
      in st\<lparr>queues := (queues st)(dId \<mapsto> take i queue @ token # drop i queue)\<rparr>)"

definition dequeue :: "string \<Rightarrow> engine_state \<Rightarrow> tref option \<times> engine_state" where
  "dequeue dId st =
     (case queues st dId of
        None \<Rightarrow> (None, st)
      | Some [] \<Rightarrow> (None, st)
      | Some (t # q) \<Rightarrow> (Some t, st\<lparr>queues := (queues st)(dId \<mapsto> q)\<rparr>))"

fun requeue :: "string \<Rightarrow> tref list \<Rightarrow> engine_state \<Rightarrow> engine_state" where
  "requeue dId [] st = st"
| "requeue dId (t # ts) st = requeue dId ts (enqueue dId t st)"

section \<open>Allocation engine (src/engine/allocationEngine.ts)\<close>

text \<open>The scan of \<open>allocateToken\<close>: the index of the first slot that is AVAILABLE and has
  spare capacity, counting from \<open>i\<close>.\<close>

fun firstAvailable :: "Slot list \<Rightarrow> nat \<Rightarrow> nat option" where
  "firstAvailable [] i = None"
| "firstAvailable (slot # rest) i =
     (if status_s slot = AVAILABLE \<and> real (length (allocatedTokenIds slot)) < capacity slot
      then Some i else firstAvailable rest (Suc i))"

text \<open>Pushing an identity into a slot and setting the status to FULL when the slot is now
  at capacity (the same three lines in every place that allocates).\<close>

definition pushToken :: "string \<Rightarrow> Slot \<Rightarrow> Slot" where
  "pushToken tokenId slot =
     (let ids = allocatedTokenIds slot @ [tokenId]
      in slot\<lparr>allocatedTokenIds := ids,
              status_s := (if real (length ids) = capacity slot then FULL else status_s slot)\<rparr>)"

definition markAllocated :: "int \<Rightarrow> string \<Rightarrow> nat \<Rightarrow> Token \<Rightarrow> Token" where
  "markAllocated now dId i token =
     token\<lparr>status := ALLOCATED, doctorId := Some dId, slotIndex := Some i,
            allocatedAt := Some now\<rparr>"

definition allocateToken :: "int \<Rightarrow> tref \<Rightarrow> engine_state \<Rightarrow> nat option \<times> engine_state" where
  "allocateToken now token st =
     (let d = doctor st in
      case firstAvailable (slots d) 0 of
        None \<Rightarrow> (None, st)
      | Some i \<Rightarrow>
          (Some i,
           st\<lparr>doctor := d\<lparr>slots := (slots d)[i := pushToken (id_t (heap st token)) (slots d ! i)]\<rparr>,
              heap := (heap st)(token := markAllocated now (id_d d) i (heap st token))\<rparr>))"

text \<open>The \<open>while (true)\<close> loop of \<open>allocateFromQueue\<close>; a run that never leaves the loop
  has the value \<open>None\<close>.\<close>

partial_function (option) allocateLoop ::
  "int \<Rightarrow> string \<Rightarrow> engine_state \<Rightarrow> nat \<Rightarrow> (nat \<times> engine_state) option" where
  "allocateLoop now dId st allocated =
     (case dequeue dId st of
        (None, st1) \<Rightarrow> Some (allocated, st1)
      | (Some token, st1) \<Rightarrow>
          (case allocateToken now token st1 of
             (None, st2) \<Rightarrow> Some (allocated, enqueue dId token st2)
           | (Some i, st2) \<Rightarrow> allocateLoop now dId st2 (allocated + 1)))"

definition allocateFromQueue :: "int \<Rightarrow> string \<Rightarrow> engine_state \<Rightarrow> (nat \<times> engine_state) option" where
  "allocateFromQueue now dId st = allocateLoop now dId st 0"

definition markRequeued :: "Token \<Rightarrow> Token" where
  "markRequeued token = token\<lparr>status := REQUEUED, slotIndex := None, allocatedAt := None\<rparr>"

text \<open>The inner loop of \<open>reallocate\<close> over the identities of one slot: every identity that
  the token map resolves is marked REQUEUED and collected.\<close>

fun freeTokens ::
  "(string \<rightharpoonup> tref) \<Rightarrow> string list \<Rightarrow> (tref \<Rightarrow> Token) \<Rightarrow> tref list
     \<Rightarrow> (tref \<Rightarrow> Token) \<times> tref list" where
  "freeTokens tokens [] h requeued = (h, requeued)"
| "freeTokens tokens (tokenId # ids) h requeued =
     (case tokens tokenId of
        None \<Rightarrow> freeTokens tokens ids h requeued
      | Some token \<Rightarrow>
          freeTokens tokens ids (h(token := markRequeued (h token))) (requeued @ [token]))"

text \<open>The outer loop of \<open>reallocate\<close> over the slots from \<open>fromSlotIndex\<close> on.\<close>

fun freeSlots ::
  "(string \<rightharpoonup> tref) \<Rightarrow> Slot list \<Rightarrow> (tref \<Rightarrow> Token) \<Rightarrow> tref list
     \<Rightarrow> Slot list \<times> (tref \<Rightarrow> Token) \<times> tref list" where
  "freeSlots tokens [] h requeued = ([], h, requeued)"
| "freeSlots tokens (slot # rest) h requeued =
     (case freeTokens tokens (allocatedTokenIds slot) h requeued of
        (h1, requeued1) \<Rightarrow>
          (case freeSlots tokens rest h1 requeued1 of
             (rest', h2, requeued2) \<Rightarrow> (slot\<lparr>allocatedTokenIds := []\<rparr> # rest', h2, requeued2)))"

text \<open>Steps 1 and 2 of \<open>reallocate\<close>: the state after the two nested loops, and the tokens
  collected.\<close>

definition freeAffected ::
  "nat \<Rightarrow> (string \<rightharpoonup> tref) \<Rightarrow> engine_state \<Rightarrow> tref list \<times> engine_state" where
  "freeAffected fromSlotIndex tokens st =
     (let d = doctor st in
      case freeSlots tokens (drop fromSlotIndex (slots d)) (heap st) [] of
        (affected, h, requeuedTokens) \<Rightarrow>
          (requeuedTokens,
           st\<lparr>doctor := d\<lparr>slots := take fromSlotIndex (slots d) @ affected\<rparr>, heap := h\<rparr>))"

definition reallocate ::
  "int \<Rightarrow> string \<Rightarrow> nat \<Rightarrow> (string \<rightharpoonup> tref) \<Rightarrow> engine_state
     \<Rightarrow> (tref list \<times> engine_state) option" where
  "reallocate now dId fromSlotIndex tokens st =
     (case freeAffected fromSlotIndex tokens st of
        (requeuedTokens, st1) \<Rightarrow>
          (case allocateFromQueue now dId (requeue dId requeuedTokens st1) of
             None \<Rightarrow> None
           | Some (n, st2) \<Rightarrow> Some (requeuedTokens, st2)))"

text \<open>Removing a token from a slot (\<open>indexOf\<close>, \<open>splice\<close>) and reverting FULL to AVAILABLE:
  the same lines in \<open>freeTokenFromSlot\<close> and in \<open>shiftToken\<close>.\<close>

definition removeToken :: "string \<Rightarrow> Slot \<Rightarrow> Slot" where
  "removeToken tokenId slot =
     (if tokenId \<in> set (allocatedTokenIds slot) then
        (let ids = remove1 tokenId (allocatedTokenIds slot)
         in slot\<lparr>allocatedTokenIds := ids,
                 status_s := (if status_s slot = FULL \<and> real (length ids) < capacity slot
                              then AVAILABLE else status_s slot)\<rparr>)
      else slot)"

text \<open>Reading \<open>doctor.slots[i]\<close> out of range gives \<open>undefined\<close>, and the next field access
  throws a TypeError.\<close>

definition freeTokenFromSlot :: "tref \<Rightarrow> engine_state \<Rightarrow> error + engine_state" where
  "freeTokenFromSlot token st =
     (let d = doctor st in
      case slotIndex (heap st token) of
        None \<Rightarrow> Inr st
      | Some i \<Rightarrow>
          if i < length (slots d) then
            Inr (st\<lparr>doctor := d\<lparr>slots := (slots d)[i := removeToken (id_t (heap st token)) (slots d ! i)]\<rparr>,
                    heap := (heap st)(token := (heap st token)\<lparr>slotIndex := None, allocatedAt := None\<rparr>)\<rparr>)
          else Inl TypeError)"


section \<open>Emergency reshuffler (src/engine/emergencyReshuffler.ts)\<close>

fun flexScore :: "TokenFlexibility option \<Rightarrow> int" where
  "flexScore (Some HIGH) = 3"
| "flexScore (Some MEDIUM) = 2"
| "flexScore (Some LOW) = 1"
| "flexScore None = 0"

text \<open>The loop of \<open>findMostFlexibleToken\<close> with its two variables \<open>mostFlexible\<close> and
  \<open>highestFlexibility\<close>.\<close>

fun findMostFlexibleLoop ::
  "(tref \<Rightarrow> Token) \<Rightarrow> (string \<rightharpoonup> tref) \<Rightarrow> string list \<Rightarrow> tref option \<Rightarrow> int
     \<Rightarrow> tref option" where
  "findMostFlexibleLoop h tokens [] mostFlexible highestFlexibility = mostFlexible"
| "findMostFlexibleLoop h tokens (tokenId # ids) mostFlexible highestFlexibility =
     (case tokens tokenId of
        None \<Rightarrow> findMostFlexibleLoop h tokens ids mostFlexible highestFlexibility
      | Some token \<Rightarrow>
          (if flexScore (flexibility (h token)) > highestFlexibility
           then findMostFlexibleLoop h tokens ids (Some token) (flexScore (flexibility (h token)))
           else findMostFlexibleLoop h tokens ids mostFlexible highestFlexibility))"

definition findMostFlexibleToken ::
  "(tref \<Rightarrow> Token) \<Rightarrow> (string \<rightharpoonup> tref) \<Rightarrow> Slot \<Rightarrow> tref option" where
  "findMostFlexibleToken h tokens slot =
     findMostFlexibleLoop h tokens (allocatedTokenIds slot) None (- 1)"

definition hasRoom :: "Slot \<Rightarrow> bool" where
  "hasRoom slot \<longleftrightarrow>
     status_s slot = AVAILABLE \<and> real (length (allocatedTokenIds slot)) < capacity slot"

text \<open>
  \<open>findNearbySlotWithCapacity\<close>: the forward loop runs over
  \<open>currentSlotIndex + 1 .. min (length - 1) (currentSlotIndex + window)\<close>, the backward loop
  over \<open>currentSlotIndex - 1\<close> down to \<open>max 0 (currentSlotIndex - window)\<close>. Only the
  backward loop can read beyond the slots, when \<open>currentSlotIndex\<close> is beyond their number.
\<close>

definition findNearbySlotWithCapacity :: "Doctor \<Rightarrow> nat \<Rightarrow> nat \<Rightarrow> error + nat option" where
  "findNearbySlotWithCapacity d currentSlotIndex window =
     (case find (\<lambda>i. hasRoom (slots d ! i))
             [Suc currentSlotIndex ..< min (length (slots d)) (Suc (currentSlotIndex + window))] of
        Some i \<Rightarrow> Inr (Some i)
      | None \<Rightarrow>
          if length (slots d) < currentSlotIndex \<and> 0 < window then Inl TypeError
          else Inr (find (\<lambda>i. hasRoom (slots d ! i))
                      (rev [currentSlotIndex - window ..< currentSlotIndex])))"

definition shiftToken ::
  "int \<Rightarrow> tref \<Rightarrow> nat \<Rightarrow> nat \<Rightarrow> engine_state \<Rightarrow> error + engine_state" where
  "shiftToken now token fromSlotIndex toSlotIndex st =
     (let d = doctor st in
      if fromSlotIndex < length (slots d) \<and> toSlotIndex < length (slots d) then
        (let tokenId = id_t (heap st token);
             slots1 = (slots d)[fromSlotIndex := removeToken tokenId (slots d ! fromSlotIndex)];
             slots2 = slots1[toSlotIndex := pushToken tokenId (slots1 ! toSlotIndex)]
         in Inr (st\<lparr>doctor := d\<lparr>slots := slots2\<rparr>,
                    heap := (heap st)(token := (heap st token)
                      \<lparr>slotIndex := Some toSlotIndex, allocatedAt := Some now\<rparr>)\<rparr>))
      else Inl TypeError)"

definition allocateEmergencyToSlot ::
  "int \<Rightarrow> tref \<Rightarrow> nat \<Rightarrow> engine_state \<Rightarrow> error + nat option \<times> engine_state" where
  "allocateEmergencyToSlot now emergencyToken i st =
     (let d = doctor st in
      if i < length (slots d) then
        (if real (length (allocatedTokenIds (slots d ! i))) \<ge> capacity (slots d ! i)
         then Inr (None, st)
         else Inr (Some i,
           st\<lparr>doctor := d\<lparr>slots := (slots d)[i := pushToken (id_t (heap st emergencyToken)) (slots d ! i)]\<rparr>,
              heap := (heap st)(emergencyToken :=
                markAllocated now (id_d d) i (heap st emergencyToken))\<rparr>))
      else Inl TypeError)"

definition RESHUFFLE_WINDOW :: nat where
  "RESHUFFLE_WINDOW = 2"

text \<open>The loop of \<open>attemptReshuffle\<close> over the target slots, from \<open>targetSlotIndex\<close> on.\<close>

function attemptReshuffleLoop ::
  "int \<Rightarrow> tref \<Rightarrow> (string \<rightharpoonup> tref) \<Rightarrow> nat \<Rightarrow> engine_state
     \<Rightarrow> error + nat option \<times> engine_state" where
  "attemptReshuffleLoop now emergencyToken tokens targetSlotIndex st =
     (if targetSlotIndex < length (slots (doctor st)) then
        (let targetSlot = slots (doctor st) ! targetSlotIndex in
         if status_s targetSlot = BLOCKED then
           attemptReshuffleLoop now emergencyToken tokens (Suc targetSlotIndex) st
         else if real (length (allocatedTokenIds targetSlot)) < capacity targetSlot then
           allocateEmergencyToSlot now emergencyToken targetSlotIndex st
         else
           (case findMostFlexibleToken (heap st) tokens targetSlot of
              None \<Rightarrow> attemptReshuffleLoop now emergencyToken tokens (Suc targetSlotIndex) st
            | Some flexibleToken \<Rightarrow>
                (case findNearbySlotWithCapacity (doctor st) targetSlotIndex RESHUFFLE_WINDOW of
                   Inl e \<Rightarrow> Inl e
                 | Inr None \<Rightarrow>
                     attemptReshuffleLoop now emergencyToken tokens (Suc targetSlotIndex) st
                 | Inr (Some destinationSlot) \<Rightarrow>
                     (case shiftToken now flexibleToken targetSlotIndex destinationSlot st of
                        Inl e \<Rightarrow> Inl e
                      | Inr st1 \<Rightarrow>
                          allocateEmergencyToSlot now emergencyToken targetSlotIndex st1))))
      else Inr (None, st))"
  by pat_completeness auto
termination
  by (relation "measure (\<lambda>(now, emergencyToken, tokens, i, st). length (slots (doctor st)) - i)")
    auto

definition attemptReshuffle ::
  "int \<Rightarrow> tref \<Rightarrow> (string \<rightharpoonup> tref) \<Rightarrow> engine_state \<Rightarrow> error + nat option \<times> engine_state" where
  "attemptReshuffle now emergencyToken tokens st =
     attemptReshuffleLoop now emergencyToken tokens 0 st"

section \<open>Emergency handler (src/events/emergencyHandler.ts)\<close>

text \<open>The scan of \<open>allocateWithQuotaCheck\<close>: the first slot that is not BLOCKED, has spare
  capacity and is below the per-slot ceiling.\<close>

fun firstWithQuota :: "nat \<Rightarrow> Slot list \<Rightarrow> nat \<Rightarrow> nat option" where
  "firstWithQuota m [] i = None"
| "firstWithQuota m (slot # rest) i =
     (if status_s slot \<noteq> BLOCKED \<and> real (length (allocatedTokenIds slot)) < capacity slot
         \<and> emergencyCount slot < m
      then Some i else firstWithQuota m rest (Suc i))"

definition slotCeiling :: "Doctor \<Rightarrow> nat" where
  "slotCeiling d = (case maxEmergenciesPerSlot d of None \<Rightarrow> 1 | Some m \<Rightarrow> m)"

definition allocateWithQuotaCheck ::
  "int \<Rightarrow> tref \<Rightarrow> engine_state \<Rightarrow> nat option \<times> engine_state" where
  "allocateWithQuotaCheck now token st =
     (let d = doctor st in
      case firstWithQuota (slotCeiling d) (slots d) 0 of
        None \<Rightarrow> (None, st)
      | Some i \<Rightarrow>
          (Some i,
           st\<lparr>doctor := d\<lparr>slots := (slots d)[i := pushToken (id_t (heap st token)) (slots d ! i)]\<rparr>,
              heap := (heap st)(token := markAllocated now (id_d d) i (heap st token))\<rparr>))"

definition countDailyEmergencies :: "Doctor \<Rightarrow> nat" where
  "countDailyEmergencies d = foldl (\<lambda>sum slot. sum + emergencyCount slot) 0 (slots d)"

text \<open>The daily check of \<open>handleEmergency\<close>: a daily ceiling is configured and the
  count of the day has reached it.\<close>

definition dailyQuotaReached :: "Doctor \<Rightarrow> bool" where
  "dailyQuotaReached d =
     (case maxEmergenciesPerDay d of
        None \<Rightarrow> False
      | Some m \<Rightarrow> countDailyEmergencies d \<ge> m)"

text \<open>\<open>doctor.slots[i].emergencyCount++\<close>\<close>

definition incrementEmergencyCount :: "nat \<Rightarrow> engine_state \<Rightarrow> engine_state" where
  "incrementEmergencyCount i st =
     (let d = doctor st
      in st\<lparr>doctor := d\<lparr>slots := (slots d)[i := (slots d ! i)
             \<lparr>emergencyCount := emergencyCount (slots d ! i) + 1\<rparr>]\<rparr>\<rparr>)"

text \<open>The last lines of \<open>handleEmergency\<close>, and its daily-quota branch: the token is marked
  QUEUED and enqueued.\<close>

definition queueEmergency :: "tref \<Rightarrow> engine_state \<Rightarrow> engine_state" where
  "queueEmergency token st =
     (let d = doctor st
      in enqueue (id_d d) token
           (st\<lparr>heap := (heap st)(token := (heap st token)
                \<lparr>status := QUEUED, doctorId := Some (id_d d)\<rparr>)\<rparr>))"

text \<open>
  \<open>reshuffler\<close> says whether a reshuffler was passed, \<open>tokens\<close> is the optional token map.
  The result is \<open>True\<close> when the token was allocated at once, \<open>False\<close> when it was queued.
\<close>

definition handleEmergency ::
  "int \<Rightarrow> tref \<Rightarrow> bool \<Rightarrow> (string \<rightharpoonup> tref) option \<Rightarrow> engine_state
     \<Rightarrow> error + bool \<times> engine_state" where
  "handleEmergency now token reshuffler tokens st =
     (if source (heap st token) \<noteq> EMERGENCY then Inl NotEmergency
      else
        (let st0 = st\<lparr>heap := (heap st)(token := (heap st token)
                      \<lparr>priorityScore := calculatePriority (heap st token)\<rparr>)\<rparr>;
             d = doctor st0
         in if dailyQuotaReached d
            then Inr (False, queueEmergency token st0)
            else
              (case allocateWithQuotaCheck now token st0 of
                 (Some i, st1) \<Rightarrow> Inr (True, incrementEmergencyCount i st1)
               | (None, st1) \<Rightarrow>
                   (case (if reshuffler then tokens else None) of
                      None \<Rightarrow> Inr (False, queueEmergency token st1)
                    | Some tks \<Rightarrow>
                        (case attemptReshuffle now token tks st1 of
                           Inl e \<Rightarrow> Inl e
                         | Inr (Some j, st2) \<Rightarrow> Inr (True, incrementEmergencyCount j st2)
                         | Inr (None, st2) \<Rightarrow> Inr (False, queueEmergency token st2))))))"

section \<open>Doctor delay handler (src/events/doctorDelayHandler.ts)\<close>

text \<open>
  The end of the delay, \<open>new Date(now.getTime() + delayMinutes * 60000)\<close>: the product and
  the sum are doubles, the date is built from the sum; \<open>None\<close> is the invalid date.
\<close>

definition delayEnd :: "int \<Rightarrow> real \<Rightarrow> int option" where
  "delayEnd now delayMinutes =
     timeClip (toDouble (real_of_int now + toDouble (delayMinutes * 60000)))"

text \<open>\<open>slot.startTime < delayEndTime\<close>: a comparison with an invalid date is false.\<close>

definition startsBefore :: "Slot \<Rightarrow> int option \<Rightarrow> bool" where
  "startsBefore slot delayEndTime =
     (case delayEndTime of None \<Rightarrow> False | Some e \<Rightarrow> startTime slot < e)"

text \<open>The loop of \<open>handleDoctorDelay\<close> from slot \<open>i\<close> on, with its variable
  \<open>firstAffectedSlot\<close>: it blocks the slots that start before the end of the delay and
  stops at the first slot that does not.\<close>

fun blockLoop :: "int option \<Rightarrow> Slot list \<Rightarrow> nat \<Rightarrow> int \<Rightarrow> Slot list \<times> int" where
  "blockLoop delayEndTime [] i firstAffectedSlot = ([], firstAffectedSlot)"
| "blockLoop delayEndTime (slot # rest) i firstAffectedSlot =
     (if startsBefore slot delayEndTime then
        (case blockLoop delayEndTime rest (Suc i)
                (if firstAffectedSlot = - 1 then int i else firstAffectedSlot) of
           (rest', r) \<Rightarrow> (slot\<lparr>status_s := BLOCKED\<rparr> # rest', r))
      else (slot # rest, firstAffectedSlot))"

definition handleDoctorDelay ::
  "int \<Rightarrow> real \<Rightarrow> (string \<rightharpoonup> tref) \<Rightarrow> engine_state \<Rightarrow> (tref list \<times> engine_state) option" where
  "handleDoctorDelay now delayMinutes tokens st =
     (let d = doctor st;
          delayEndTime = delayEnd now delayMinutes
      in case blockLoop delayEndTime (slots d) 0 (- 1) of
           (slots', firstAffectedSlot) \<Rightarrow>
             (let st1 = st\<lparr>doctor := d\<lparr>slots := slots'\<rparr>\<rparr>
              in if firstAffectedSlot = - 1 then Some ([], st1)
                 else reallocate now (id_d d) (nat firstAffectedSlot) tokens st1))"

section \<open>Invariants and views of the state\<close>

definition queueOf :: "engine_state \<Rightarrow> string \<Rightarrow> tref list" where
  "queueOf st dId = (case queues st dId of None \<Rightarrow> [] | Some q \<Rightarrow> q)"

text \<open>Capacity invariant: no slot holds more identities than its capacity.\<close>

definition capacityOk :: "Slot \<Rightarrow> bool" where
  "capacityOk slot \<longleftrightarrow> real (length (allocatedTokenIds slot)) \<le> capacity slot"

definition capacityInvariant :: "engine_state \<Rightarrow> bool" where
  "capacityInvariant st \<longleftrightarrow> list_all capacityOk (slots (doctor st))"

text \<open>A slot whose capacity is a whole number and is not exceeded, and a state in which
  every slot is so.\<close>

definition wholeSlot :: "Slot \<Rightarrow> bool" where
  "wholeSlot slot \<longleftrightarrow> capacity slot \<in> \<nat> \<and> capacityOk slot"

definition wholeInvariant :: "engine_state \<Rightarrow> bool" where
  "wholeInvariant st \<longleftrightarrow> list_all wholeSlot (slots (doctor st))"

text \<open>A token that is placed: it is ALLOCATED and linked to a slot of the doctor whose
  occupant list holds its identity.\<close>

definition placed :: "engine_state \<Rightarrow> tref \<Rightarrow> bool" where
  "placed st t \<longleftrightarrow>
     status (heap st t) = ALLOCATED
     \<and> (case slotIndex (heap st t) of
          None \<Rightarrow> False
        | Some j \<Rightarrow> j < length (slots (doctor st))
                    \<and> id_t (heap st t) \<in> set (allocatedTokenIds (slots (doctor st) ! j)))"

text \<open>A token that is waiting again after a delay: it is as \<open>reallocate\<close> marked it, and in
  the queue.\<close>

definition waiting :: "string \<Rightarrow> engine_state \<Rightarrow> tref \<Rightarrow> bool" where
  "waiting dId st t \<longleftrightarrow>
     status (heap st t) = REQUEUED \<and> slotIndex (heap st t) = None
     \<and> allocatedAt (heap st t) = None \<and> t \<in> set (queueOf st dId)"

text \<open>
  A slot \<open>s'\<close> that results from a slot \<open>s\<close> by allocations of identities from \<open>I\<close>: the
  occupant list has grown at its end, the status is as before or FULL, nothing else has
  changed, and a slot that was not AVAILABLE has not changed at all.
\<close>

definition grown :: "string set \<Rightarrow> Slot \<Rightarrow> Slot \<Rightarrow> bool" where
  "grown I s s' \<longleftrightarrow>
     (\<exists>xs. set xs \<subseteq> I
        \<and> s' = s\<lparr>allocatedTokenIds := allocatedTokenIds s @ xs, status_s := status_s s'\<rparr>
        \<and> (status_s s \<noteq> AVAILABLE \<longrightarrow> xs = [] \<and> status_s s' = status_s s)
        \<and> (status_s s' = status_s s \<or> status_s s' = FULL))"

text \<open>Per-slot emergency ceiling: no slot counts more emergencies than the ceiling.\<close>

definition quotaInvariant :: "engine_state \<Rightarrow> bool" where
  "quotaInvariant st \<longleftrightarrow>
     list_all (\<lambda>slot. emergencyCount slot \<le> slotCeiling (doctor st)) (slots (doctor st))"

text \<open>Status as a derived view: a slot that is not BLOCKED is FULL exactly when it is at
  capacity, and AVAILABLE otherwise.\<close>

definition statusDerived :: "Slot \<Rightarrow> bool" where
  "statusDerived slot \<longleftrightarrow>
     status_s slot = BLOCKED \<or>
     status_s slot =
       (if real (length (allocatedTokenIds slot)) = capacity slot then FULL else AVAILABLE)"

definition statusInvariant :: "engine_state \<Rightarrow> bool" where
  "statusInvariant st \<longleftrightarrow> list_all statusDerived (slots (doctor st))"

text \<open>A queue in descending order of priority score.\<close>

definition queueSorted :: "(tref \<Rightarrow> Token) \<Rightarrow> tref list \<Rightarrow> bool" where
  "queueSorted h q \<longleftrightarrow> sorted_wrt (\<lambda>a b. priorityScore (h a) \<ge> priorityScore (h b)) q"

text \<open>
  What a call of \<open>allocateFromQueue\<close> that returns \<open>n\<close> has done, from state \<open>st\<close> to state
  \<open>st'\<close>: the first \<open>n\<close> entries of the queue are placed, every other token is as it was,
  and the entries that are left are the queue; the slots have grown by the identities of
  the first \<open>n\<close> entries; when entries are left, no slot has room and the queue is the
  rest with entry \<open>n\<close> pushed back by \<open>enqueue\<close>; a sorted queue stays sorted.
\<close>

definition drained :: "string \<Rightarrow> engine_state \<Rightarrow> engine_state \<Rightarrow> nat \<Rightarrow> bool" where
  "drained dId st st' n \<longleftrightarrow>
     n \<le> length (queueOf st dId)
     \<and> mset (queueOf st dId) = mset (take n (queueOf st dId)) + mset (queueOf st' dId)
     \<and> list_all (placed st') (take n (queueOf st dId))
     \<and> (\<forall>t. t \<notin> set (take n (queueOf st dId)) \<longrightarrow> heap st' t = heap st t)
     \<and> list_all2 (grown (id_t ` heap st ` set (take n (queueOf st dId))))
          (slots (doctor st)) (slots (doctor st'))
     \<and> (n < length (queueOf st dId) \<longrightarrow>
          list_all (\<lambda>s. \<not> hasRoom s) (slots (doctor st'))
          \<and> queueOf st' dId =
              queueOf (enqueue dId (queueOf st dId ! n)
                (st'\<lparr>queues := (queues st')(dId \<mapsto> drop (Suc n) (queueOf st dId))\<rparr>)) dId)
     \<and> (queueSorted (heap st) (queueOf st dId) \<longrightarrow> queueSorted (heap st') (queueOf st' dId))"

text \<open>Slots in chronological order of their start.\<close>

definition chronological :: "Slot list \<Rightarrow> bool" where
  "chronological ss \<longleftrightarrow> sorted_wrt (\<lambda>a b. startTime a \<le> startTime b) ss"

text \<open>The tokens that the token map resolves among the occupants of the given slots, in
  slot order.\<close>

definition occupants :: "(string \<rightharpoonup> tref) \<Rightarrow> Slot list \<Rightarrow> tref list" where
  "occupants tokens ss = List.map_filter tokens (concat (map allocatedTokenIds ss))"

section \<open>Example objects\<close>

text \<open>A token as the routes and the simulation create it, and a slot as \<open>generateSlots\<close>
  creates it.\<close>

definition newToken :: "string \<Rightarrow> PatientSource \<Rightarrow> int \<Rightarrow> TokenFlexibility option \<Rightarrow> Token" where
  "newToken i src t fl =
     \<lparr>id_t = i, patientName = ''patient'', patientAge = 40, source = src, status = REQUESTED,
      doctorId = None, slotIndex = None, priorityScore = 0, requestedAt = t,
      allocatedAt = None, completedAt = None, flexibility = fl\<rparr>"

definition newSlot :: "int \<Rightarrow> int \<Rightarrow> real \<Rightarrow> Slot" where
  "newSlot s e c =
     \<lparr>startTime = s, endTime = e, capacity = c, allocatedTokenIds = [],
      status_s = AVAILABLE, emergencyCount = 0\<rparr>"

text \<open>A token after the intake of the routes: scored, QUEUED and owned by the doctor.\<close>

definition queuedToken ::
  "string \<Rightarrow> PatientSource \<Rightarrow> int \<Rightarrow> TokenFlexibility option \<Rightarrow> string \<Rightarrow> Token" where
  "queuedToken i src t fl dId =
     (let token = newToken i src t fl
      in token\<lparr>priorityScore := calculatePriority token, status := QUEUED, doctorId := Some dId\<rparr>)"

text \<open>Four token objects: walk-in A without a flexibility tag and online B, in the states
  \<open>a\<close> and \<open>b\<close>; two emergencies E1 and E2, just created.\<close>

definition tokenA :: Token where
  "tokenA = queuedToken ''A'' WALKIN 1000 None ''DOC1''"

definition tokenB :: Token where
  "tokenB = queuedToken ''B'' ONLINE 2000 (Some MEDIUM) ''DOC1''"

definition exampleHeap :: "Token \<Rightarrow> Token \<Rightarrow> tref \<Rightarrow> Token" where
  "exampleHeap a b =
     (\<lambda>r. newToken [] WALKIN 0 None)
       (0 := a, 1 := b,
        2 := newToken ''E1'' EMERGENCY 3000 None,
        3 := newToken ''E2'' EMERGENCY 4000 None)"

definition exampleTokens :: "string \<rightharpoonup> tref" where
  "exampleTokens = [''A'' \<mapsto> 0, ''B'' \<mapsto> 1, ''E1'' \<mapsto> 2, ''E2'' \<mapsto> 3]"

definition exampleState ::
  "Token \<Rightarrow> Token \<Rightarrow> Slot list \<Rightarrow> (string \<rightharpoonup> tref list) \<Rightarrow> engine_state" where
  "exampleState a b ss qs =
     \<lparr>doctor = \<lparr>id_d = ''DOC1'', slots = ss, maxEmergenciesPerSlot = Some 1,
                maxEmergenciesPerDay = Some 3\<rparr>,
      heap = exampleHeap a b, queues = qs\<rparr>"

text \<open>One slot of capacity 1 that holds A; B waits in the queue.\<close>

definition fullState :: engine_state where
  "fullState =
     exampleState (markAllocated 0 ''DOC1'' 0 tokenA) tokenB
       [pushToken ''A'' (newSlot 600000 2400000 1)] [''DOC1'' \<mapsto> [1]]"

text \<open>One empty slot of capacity 1; B is before A in the queue.\<close>

definition queueState :: engine_state where
  "queueState =
     exampleState tokenA tokenB [newSlot 600000 2400000 1] [''DOC1'' \<mapsto> [1, 0]]"

text \<open>Two slots of capacity 1, ten and forty minutes from time 0; the first holds B, the
  second holds A; the queue is empty.\<close>

definition twoFullState :: engine_state where
  "twoFullState =
     exampleState (markAllocated 0 ''DOC1'' 1 tokenA) (markAllocated 0 ''DOC1'' 0 tokenB)
       [pushToken ''B'' (newSlot 600000 2400000 1), pushToken ''A'' (newSlot 2400000 4200000 1)]
       Map.empty"

text \<open>Two slots of capacity 1; the first holds A, the second is empty; B waits in the
  queue.\<close>

definition movableState :: engine_state where
  "movableState =
     exampleState (markAllocated 0 ''DOC1'' 0 tokenA) tokenB
       [pushToken ''A'' (newSlot 600000 2400000 1), newSlot 2400000 4200000 1]
       [''DOC1'' \<mapsto> [1]]"

text \<open>One slot of capacity 2 that holds A and has room for one more.\<close>

definition roomyState :: engine_state where
  "roomyState =
     exampleState (markAllocated 0 ''DOC1'' 0 tokenA) tokenB
       [pushToken ''A'' (newSlot 600000 2400000 2)] Map.empty"

text \<open>Two slots of capacity 2; the first holds A (no tag) and B (MEDIUM), the second is
  empty.\<close>

definition mixedState :: engine_state where
  "mixedState =
     exampleState (markAllocated 0 ''DOC1'' 0 tokenA) (markAllocated 0 ''DOC1'' 0 tokenB)
       [pushToken ''B'' (pushToken ''A'' (newSlot 600000 2400000 2)), newSlot 2400000 4200000 2]
       Map.empty"

text \<open>Two slots of capacity 1; the first holds an identity that the token map does not
  know, the second is empty.\<close>

definition strangerState :: engine_state where
  "strangerState =
     exampleState tokenA tokenB
       [pushToken ''X'' (newSlot 600000 2400000 1), newSlot 2400000 4200000 1]
       [''DOC1'' \<mapsto> [1, 0]]"

text \<open>A third queued token, walk-in C, at reference 4; one empty slot of capacity 2.5, as
  a doctor registered with \<open>slotCapacity: 2.5\<close> gets them; B, A and C wait in the queue.\<close>

definition tokenC :: Token where
  "tokenC = queuedToken ''C'' WALKIN 5000 None ''DOC1''"

definition fractionalState :: engine_state where
  "fractionalState =
     (exampleState tokenA tokenB [newSlot 600000 2400000 (5 / 2)] [''DOC1'' \<mapsto> [1, 0, 4]])
       \<lparr>heap := (exampleHeap tokenA tokenB)(4 := tokenC)\<rparr>"

text \<open>One empty slot of capacity 3, as the first doctor of the simulation has them, with
  the ceilings of that doctor: one emergency per slot, three per day.\<close>

definition emergencyState :: engine_state where
  "emergencyState = exampleState tokenA tokenB [newSlot 600000 2400000 3] Map.empty"

section \<open>Evaluation of the examples\<close>

lemmas double_defs = toDouble_def roundAt.simps roundEven_def

lemma tokenA_eval:
  "tokenA = \<lparr>id_t = ''A'', patientName = ''patient'', patientAge = 40, source = WALKIN,
     status = QUEUED, doctorId = Some ''DOC1'', slotIndex = None,
     priorityScore = - (4722366482869645 / 4722366482869645213696), requestedAt = 1000,
     allocatedAt = None, completedAt = None, flexibility = None\<rparr>"
  by (simp add: tokenA_def queuedToken_def newToken_def calculatePriority_def double_defs)

lemma tokenB_eval:
  "tokenB = \<lparr>id_t = ''B'', patientName = ''patient'', patientAge = 40, source = ONLINE,
     status = QUEUED, doctorId = Some ''DOC1'', slotIndex = None,
     priorityScore = 439804642314307 / 4398046511104, requestedAt = 2000,
     allocatedAt = None, completedAt = None, flexibility = Some MEDIUM\<rparr>"
  by (simp add: tokenB_def queuedToken_def newToken_def calculatePriority_def double_defs)

lemma tokenC_eval:
  "tokenC = \<lparr>id_t = ''C'', patientName = ''patient'', patientAge = 40, source = WALKIN,
     status = QUEUED, doctorId = Some ''DOC1'', slotIndex = None,
     priorityScore = - (5902958103587057 / 1180591620717411303424), requestedAt = 5000,
     allocatedAt = None, completedAt = None, flexibility = None\<rparr>"
  by (simp add: tokenC_def queuedToken_def newToken_def calculatePriority_def double_defs)

lemmas example_defs =
  exampleState_def exampleHeap_def exampleTokens_def tokenA_eval tokenB_eval tokenC_eval
  newToken_def newSlot_def markAllocated_def markRequeued_def pushToken_def removeToken_def
  Let_def

section \<open>Priority model: classes and arrival times\<close>

text \<open>
  C4: a token of a higher class always scores strictly above a token of a lower class,
  whatever the two arrival times. The code does not keep this: the tiebreaker is the
  arrival time in milliseconds divided by \<open>10^9\<close>, about \<open>-1704\<close> for a request of
  1 January 2024, and it grows without bound, while the classes are 100 to 500 apart. A
  walk-in request of 1 January 2024 (1704067200000 ms) scores \<open>-1704.0672\<close>; an online
  request of 1 June 2027 (1811808000000 ms) scores \<open>100 - 1811.808 = -1711.808\<close>, below
  the walk-in request, although ONLINE is the higher class.
\<close>

theorem C4_later_higher_class_scores_lower:
  "tier (source (newToken ''W'' WALKIN 1704067200000 None))
     < tier (source (newToken ''O'' ONLINE 1811808000000 None))
   \<and> calculatePriority (newToken ''W'' WALKIN 1704067200000 None)
       = - (3747283401823381 / 2199023255552)
   \<and> calculatePriority (newToken ''O'' ONLINE 1811808000000 None)
       = - (1882152800519979 / 1099511627776)
   \<and> calculatePriority (newToken ''O'' ONLINE 1811808000000 None)
       < calculatePriority (newToken ''W'' WALKIN 1704067200000 None)"
  by (simp add: calculatePriority_def newToken_def double_defs)

section \<open>allocateToken\<close>

lemma firstAvailable_None:
  "firstAvailable ss i = None \<longleftrightarrow> list_all (\<lambda>s. \<not> hasRoom s) ss"
  by (induction ss arbitrary: i) (auto simp: hasRoom_def)

text \<open>
  C8: \<open>allocateToken\<close> returns null exactly when no slot of the doctor is AVAILABLE with
  spare capacity, and then it leaves the whole state as it was: the doctor with every
  slot's occupant list and status, every field of every token, and the queues.
\<close>

theorem C8_allocateToken_null_unchanged:
  "(fst (allocateToken now token st) = None
      \<longleftrightarrow> list_all (\<lambda>s. \<not> hasRoom s) (slots (doctor st)))
   \<and> (fst (allocateToken now token st) = None \<longrightarrow> snd (allocateToken now token st) = st)"
  using firstAvailable_None[of "slots (doctor st)" 0]
  by (auto simp: allocateToken_def Let_def split: option.splits)

theorem C8_allocateToken_null_unchanged_witness:
  "list_all (\<lambda>s. \<not> hasRoom s) (slots (doctor fullState))
   \<and> fst (allocateToken 5 1 fullState) = None
   \<and> snd (allocateToken 5 1 fullState) = fullState"
  using C8_allocateToken_null_unchanged[of 5 1 fullState]
  by (simp add: fullState_def exampleState_def pushToken_def newSlot_def hasRoom_def)

lemma firstAvailable_Some:
  "firstAvailable ss i = Some k \<Longrightarrow> i \<le> k \<and> k - i < length ss \<and> hasRoom (ss ! (k - i))"
proof (induction ss arbitrary: i)
  case Nil
  then show ?case by simp
next
  case (Cons s ss)
  show ?case
  proof (cases "status_s s = AVAILABLE \<and> length (allocatedTokenIds s) < capacity s")
    case True
    with Cons.prems show ?thesis by (simp add: hasRoom_def)
  next
    case False
    with Cons.prems have "firstAvailable ss (Suc i) = Some k" by simp
    from Cons.IH[OF this] show ?thesis by (auto simp: Suc_diff_Suc less_eq_Suc_le)
  qed
qed

lemma allocateToken_Some:
  assumes "allocateToken now t st = (Some i, st')"
  shows "i < length (slots (doctor st)) \<and> hasRoom (slots (doctor st) ! i)
    \<and> st' = st\<lparr>doctor := (doctor st)\<lparr>slots := (slots (doctor st))
                   [i := pushToken (id_t (heap st t)) (slots (doctor st) ! i)]\<rparr>,
               heap := (heap st)(t := markAllocated now (id_d (doctor st)) i (heap st t))\<rparr>"
proof -
  from assms have f: "firstAvailable (slots (doctor st)) 0 = Some i"
    by (auto simp: allocateToken_def Let_def split: option.splits)
  from firstAvailable_Some[OF f] f assms show ?thesis
    by (auto simp: allocateToken_def Let_def)
qed

section \<open>Slots that grow by allocations\<close>

lemma grown_refl: "grown I s s"
  by (auto simp: grown_def intro!: exI[of _ "[]"])

lemma grown_pushToken:
  assumes "hasRoom s" and "x \<in> I"
  shows "grown I s (pushToken x s)"
  unfolding grown_def
  using assms
  by (intro exI[of _ "[x]"]) (auto simp: hasRoom_def pushToken_def Let_def)

lemma grown_trans:
  assumes "grown I a b" and "grown J b c"
  shows "grown (I \<union> J) a c"
proof -
  from assms(1) obtain xs where xs: "set xs \<subseteq> I"
    "b = a\<lparr>allocatedTokenIds := allocatedTokenIds a @ xs, status_s := status_s b\<rparr>"
    "status_s a \<noteq> AVAILABLE \<longrightarrow> xs = [] \<and> status_s b = status_s a"
    "status_s b = status_s a \<or> status_s b = FULL"
    unfolding grown_def by blast
  from assms(2) obtain ys where ys: "set ys \<subseteq> J"
    "c = b\<lparr>allocatedTokenIds := allocatedTokenIds b @ ys, status_s := status_s c\<rparr>"
    "status_s b \<noteq> AVAILABLE \<longrightarrow> ys = [] \<and> status_s c = status_s b"
    "status_s c = status_s b \<or> status_s c = FULL"
    unfolding grown_def by blast
  have bi: "allocatedTokenIds b = allocatedTokenIds a @ xs"
    by (subst xs(2)) simp
  have "c = a\<lparr>allocatedTokenIds := allocatedTokenIds a @ (xs @ ys), status_s := status_s c\<rparr>"
    by (subst ys(2), subst xs(2)) (simp add: bi)
  moreover have "set (xs @ ys) \<subseteq> I \<union> J" using xs(1) ys(1) by auto
  moreover have "status_s a \<noteq> AVAILABLE \<longrightarrow> xs @ ys = [] \<and> status_s c = status_s a"
    using xs(3) ys(3) by auto
  moreover have "status_s c = status_s a \<or> status_s c = FULL"
    using xs(4) ys(3,4) by auto
  ultimately show ?thesis unfolding grown_def by blast
qed

lemma grown_mono: "grown I a b \<Longrightarrow> I \<subseteq> J \<Longrightarrow> grown J a b"
  unfolding grown_def by blast

lemma grown_ids:
  assumes "grown I s s'"
  shows "set (allocatedTokenIds s) \<subseteq> set (allocatedTokenIds s')
    \<and> set (allocatedTokenIds s') \<subseteq> set (allocatedTokenIds s) \<union> I"
proof -
  from assms obtain xs where xs: "set xs \<subseteq> I"
    "s' = s\<lparr>allocatedTokenIds := allocatedTokenIds s @ xs, status_s := status_s s'\<rparr>"
    unfolding grown_def by blast
  have "allocatedTokenIds s' = allocatedTokenIds s @ xs"
    by (subst xs(2)) simp
  with xs(1) show ?thesis by auto
qed

lemma grown_unchanged: "grown I s s' \<Longrightarrow> status_s s \<noteq> AVAILABLE \<Longrightarrow> s' = s"
  unfolding grown_def by auto

lemma grown_blocked: "grown I s s' \<Longrightarrow> status_s s' = BLOCKED \<longleftrightarrow> status_s s = BLOCKED"
  unfolding grown_def by auto

lemma list_all2_grown_refl: "list_all2 (grown I) ss ss"
  by (simp add: list_all2_conv_all_nth grown_refl)

lemma list_all2_grown_update:
  assumes "i < length ss" and "hasRoom (ss ! i)" and "x \<in> I"
  shows "list_all2 (grown I) ss (ss[i := pushToken x (ss ! i)])"
  using assms
  by (auto simp: list_all2_conv_all_nth nth_list_update grown_refl grown_pushToken)

lemma list_all2_grown_trans:
  "list_all2 (grown I) as bs \<Longrightarrow> list_all2 (grown J) bs cs \<Longrightarrow> list_all2 (grown (I \<union> J)) as cs"
  by (erule list_all2_trans[rotated], assumption) (rule grown_trans)

lemma list_all2_grown_mono:
  "list_all2 (grown I) as bs \<Longrightarrow> I \<subseteq> J \<Longrightarrow> list_all2 (grown J) as bs"
  by (erule list_all2_mono) (rule grown_mono)

lemma placed_grown:
  assumes "placed s u" and "list_all2 (grown I) (slots (doctor s)) (slots (doctor s'))"
    and "heap s' u = heap s u"
  shows "placed s' u"
proof -
  from assms(1) obtain j where j: "status (heap s u) = ALLOCATED" "slotIndex (heap s u) = Some j"
    "j < length (slots (doctor s))"
    "id_t (heap s u) \<in> set (allocatedTokenIds (slots (doctor s) ! j))"
    by (auto simp: placed_def split: option.splits)
  from assms(2) j(3) have len: "j < length (slots (doctor s'))"
    and g: "grown I (slots (doctor s) ! j) (slots (doctor s') ! j)"
    by (auto simp: list_all2_conv_all_nth)
  from grown_ids[OF g] j(4) have "id_t (heap s u) \<in> set (allocatedTokenIds (slots (doctor s') ! j))"
    by auto
  with j len assms(3) show ?thesis by (simp add: placed_def)
qed

lemma placed_cong:
  "doctor s' = doctor s \<Longrightarrow> heap s' = heap s \<Longrightarrow> placed s' u = placed s u"
  by (simp add: placed_def cong: option.case_cong)

lemma allocateToken_effect:
  assumes "allocateToken now t st = (Some i, st')"
  shows "placed st' t"
    and "list_all2 (grown {id_t (heap st t)}) (slots (doctor st)) (slots (doctor st'))"
    and "\<And>u. u \<noteq> t \<Longrightarrow> heap st' u = heap st u"
    and "\<And>u. id_t (heap st' u) = id_t (heap st u)"
    and "\<And>u. priorityScore (heap st' u) = priorityScore (heap st u)"
    and "queues st' = queues st"
proof -
  note e = allocateToken_Some[OF assms]
  from e show "placed st' t"
    by (simp add: placed_def markAllocated_def pushToken_def Let_def)
  from e show "list_all2 (grown {id_t (heap st t)}) (slots (doctor st)) (slots (doctor st'))"
    by (simp add: list_all2_grown_update)
  from e show "\<And>u. u \<noteq> t \<Longrightarrow> heap st' u = heap st u" by simp
  from e show "\<And>u. id_t (heap st' u) = id_t (heap st u)" by (simp add: markAllocated_def)
  from e show "\<And>u. priorityScore (heap st' u) = priorityScore (heap st u)"
    by (simp add: markAllocated_def)
  from e show "queues st' = queues st" by simp
qed

section \<open>allocateFromQueue\<close>

lemma allocateToken_queues [simp]: "queues (snd (allocateToken now t st)) = queues st"
  by (simp add: allocateToken_def Let_def split: option.splits)

lemma allocateToken_None_same: "allocateToken now t st = (None, st') \<Longrightarrow> st' = st"
  by (auto simp: allocateToken_def Let_def split: option.splits)

lemma dequeue_None: "dequeue dId st = (None, st1) \<longleftrightarrow> queueOf st dId = [] \<and> st1 = st"
  by (auto simp: dequeue_def queueOf_def split: option.splits list.splits)

lemma dequeue_Some:
  "dequeue dId st = (Some t, st1) \<longleftrightarrow>
     (\<exists>q. queues st dId = Some (t # q) \<and> st1 = st\<lparr>queues := (queues st)(dId \<mapsto> q)\<rparr>)"
  by (auto simp: dequeue_def split: option.splits list.splits)

text \<open>A rule for the loop of \<open>allocateFromQueue\<close>: \<open>P\<close> holds before every iteration,
  \<open>Q\<close> when the loop is left; the queue shrinks with every iteration that allocates, so
  the loop is always left.\<close>

lemma allocateLoop_rule:
  assumes init: "P st a"
    and step: "\<And>st a t q i st2. P st a \<Longrightarrow> queues st dId = Some (t # q) \<Longrightarrow>
        allocateToken now t (st\<lparr>queues := (queues st)(dId \<mapsto> q)\<rparr>) = (Some i, st2)
        \<Longrightarrow> P st2 (a + 1)"
    and stop: "\<And>st a t q. P st a \<Longrightarrow> queues st dId = Some (t # q) \<Longrightarrow>
        allocateToken now t (st\<lparr>queues := (queues st)(dId \<mapsto> q)\<rparr>)
          = (None, st\<lparr>queues := (queues st)(dId \<mapsto> q)\<rparr>)
        \<Longrightarrow> Q (enqueue dId t (st\<lparr>queues := (queues st)(dId \<mapsto> q)\<rparr>)) a"
    and fin: "\<And>st a. P st a \<Longrightarrow> queueOf st dId = [] \<Longrightarrow> Q st a"
  shows "\<exists>n st'. allocateLoop now dId st a = Some (n, st') \<and> Q st' n"
  using init
proof (induction "length (queueOf st dId)" arbitrary: st a rule: less_induct)
  case less
  show ?case
  proof (cases "queueOf st dId")
    case Nil
    then have "dequeue dId st = (None, st)" by (simp add: dequeue_None)
    then have "allocateLoop now dId st a = Some (a, st)"
      by (subst allocateLoop.simps) simp
    with fin[OF less.prems Nil] show ?thesis by blast
  next
    case (Cons t q)
    then have qs: "queues st dId = Some (t # q)"
      by (auto simp: queueOf_def split: option.splits)
    let ?st1 = "st\<lparr>queues := (queues st)(dId \<mapsto> q)\<rparr>"
    have deq: "dequeue dId st = (Some t, ?st1)"
      using qs by (simp add: dequeue_Some)
    obtain r st2 where al: "allocateToken now t ?st1 = (r, st2)"
      by (cases "allocateToken now t ?st1")
    show ?thesis
    proof (cases r)
      case None
      with al have "st2 = ?st1" by (auto dest: allocateToken_None_same)
      with al None have al': "allocateToken now t ?st1 = (None, ?st1)" by simp
      have "allocateLoop now dId st a = Some (a, enqueue dId t ?st1)"
        by (subst allocateLoop.simps) (simp add: deq al')
      with stop[OF less.prems qs al'] show ?thesis by blast
    next
      case (Some i)
      have "queues st2 dId = Some q"
        using allocateToken_queues[of now t ?st1] al by simp
      then have len: "length (queueOf st2 dId) < length (queueOf st dId)"
        using Cons by (simp add: queueOf_def)
      have P2: "P st2 (a + 1)"
        using step[OF less.prems qs] al Some by simp
      have "allocateLoop now dId st a = allocateLoop now dId st2 (a + 1)"
        by (subst allocateLoop.simps) (simp add: deq al Some)
      with less.hyps[OF len P2] show ?thesis by simp
    qed
  qed
qed

text \<open>
  C10: \<open>allocateFromQueue\<close> returns on every state, although its loop is \<open>while (true)\<close>:
  an iteration either allocates the head, and the queue is shorter by one, or the loop is
  left; the number of allocations is at most the length of the queue.
\<close>

theorem C10_allocateFromQueue_terminates:
  "\<exists>n st'. allocateFromQueue now dId st = Some (n, st') \<and> n \<le> length (queueOf st dId)"
  unfolding allocateFromQueue_def
proof (rule allocateLoop_rule
    [where P = "\<lambda>s a. a + length (queueOf s dId) \<le> length (queueOf st dId)"
       and Q = "\<lambda>s a. a \<le> length (queueOf st dId)"])
  show "0 + length (queueOf st dId) \<le> length (queueOf st dId)" by simp
next
  fix s a t q i st2
  assume "a + length (queueOf s dId) \<le> length (queueOf st dId)" "queues s dId = Some (t # q)"
    "allocateToken now t (s\<lparr>queues := (queues s)(dId \<mapsto> q)\<rparr>) = (Some i, st2)"
  then show "a + 1 + length (queueOf st2 dId) \<le> length (queueOf st dId)"
    using allocateToken_queues[of now t "s\<lparr>queues := (queues s)(dId \<mapsto> q)\<rparr>"]
    by (simp add: queueOf_def)
qed (auto simp: queueOf_def)

lemma enqueue_heap [simp]: "heap (enqueue dId t st) = heap st"
  by (simp add: enqueue_def Let_def)

lemma enqueue_doctor [simp]: "doctor (enqueue dId t st) = doctor st"
  by (simp add: enqueue_def Let_def)

lemma queueOf_enqueue:
  "queueOf (enqueue dId t st) dId =
     take (insertIndex (heap st) (priorityScore (heap st t)) (queueOf st dId)) (queueOf st dId)
       @ t # drop (insertIndex (heap st) (priorityScore (heap st t)) (queueOf st dId)) (queueOf st dId)"
  by (simp add: enqueue_def Let_def queueOf_def)

lemma mset_queueOf_enqueue:
  "mset (queueOf (enqueue dId t st) dId) = add_mset t (mset (queueOf st dId))"
proof -
  have "mset (take i q @ t # drop i q) = add_mset t (mset q)" for i and q :: "tref list"
    by (metis append_take_drop_id mset.simps(2) mset_append union_mset_add_mset_right)
  then show ?thesis by (simp only: queueOf_enqueue)
qed

lemma insertIndex_sorted:
  "queueSorted h q \<Longrightarrow>
   queueSorted h (take (insertIndex h (priorityScore (h t)) q) q
                    @ t # drop (insertIndex h (priorityScore (h t)) q) q)"
proof (induction q)
  case Nil
  then show ?case by (simp add: queueSorted_def)
next
  case (Cons x xs)
  show ?case
  proof (cases "priorityScore (h t) > priorityScore (h x)")
    case True
    with Cons.prems show ?thesis
      by (auto simp: queueSorted_def)
  next
    case False
    have "queueSorted h xs" using Cons.prems by (simp add: queueSorted_def)
    from Cons.IH[OF this] False Cons.prems show ?thesis
      by (auto simp: queueSorted_def sorted_wrt_append dest: in_set_takeD in_set_dropD)
  qed
qed

lemma allocateToken_None_noRoom:
  "allocateToken now t st = (None, st') \<Longrightarrow> list_all (\<lambda>s. \<not> hasRoom s) (slots (doctor st))"
  using firstAvailable_None[of "slots (doctor st)" 0]
  by (auto simp: allocateToken_def Let_def split: option.splits)


lemma drop_eq_ConsD:
  "drop a xs = y # ys \<Longrightarrow> a < length xs \<and> xs ! a = y \<and> drop (Suc a) xs = ys"
  by (metis Cons_nth_drop_Suc drop_eq_Nil list.distinct(1) list.inject not_le)

lemma allocateFromQueue_drained:
  "\<exists>n st'. allocateFromQueue now dId st = Some (n, st') \<and> drained dId st st' n"
  unfolding allocateFromQueue_def
proof (rule allocateLoop_rule
    [where P = "\<lambda>s a. a \<le> length (queueOf st dId) \<and> queueOf s dId = drop a (queueOf st dId)
        \<and> list_all (placed s) (take a (queueOf st dId))
        \<and> (\<forall>t. t \<notin> set (take a (queueOf st dId)) \<longrightarrow> heap s t = heap st t)
        \<and> (\<forall>r. id_t (heap s r) = id_t (heap st r))
        \<and> (\<forall>r. priorityScore (heap s r) = priorityScore (heap st r))
        \<and> list_all2 (grown (id_t ` heap st ` set (take a (queueOf st dId))))
             (slots (doctor st)) (slots (doctor s))"
       and Q = "drained dId st"])
  show "0 \<le> length (queueOf st dId) \<and> queueOf st dId = drop 0 (queueOf st dId)
        \<and> list_all (placed st) (take 0 (queueOf st dId))
        \<and> (\<forall>t. t \<notin> set (take 0 (queueOf st dId)) \<longrightarrow> heap st t = heap st t)
        \<and> (\<forall>r. id_t (heap st r) = id_t (heap st r))
        \<and> (\<forall>r. priorityScore (heap st r) = priorityScore (heap st r))
        \<and> list_all2 (grown (id_t ` heap st ` set (take 0 (queueOf st dId))))
             (slots (doctor st)) (slots (doctor st))"
    by (simp add: list_all2_grown_refl)
next
  fix s :: engine_state and a t q i st2
  let ?q0 = "queueOf st dId"
  let ?s1 = "s\<lparr>queues := (queues s)(dId \<mapsto> q)\<rparr>"
  assume P: "a \<le> length ?q0 \<and> queueOf s dId = drop a ?q0
        \<and> list_all (placed s) (take a ?q0)
        \<and> (\<forall>t. t \<notin> set (take a ?q0) \<longrightarrow> heap s t = heap st t)
        \<and> (\<forall>r. id_t (heap s r) = id_t (heap st r))
        \<and> (\<forall>r. priorityScore (heap s r) = priorityScore (heap st r))
        \<and> list_all2 (grown (id_t ` heap st ` set (take a ?q0)))
             (slots (doctor st)) (slots (doctor s))"
    and qs: "queues s dId = Some (t # q)"
    and al: "allocateToken now t ?s1 = (Some i, st2)"
  from P qs have "drop a ?q0 = t # q" by (simp add: queueOf_def)
  then have a: "a < length ?q0" "?q0 ! a = t" "drop (Suc a) ?q0 = q"
    by (auto dest: drop_eq_ConsD)
  have tk: "take (Suc a) ?q0 = take a ?q0 @ [t]"
    using a by (simp add: take_Suc_conv_app_nth)
  note ef = allocateToken_effect[OF al]
  have q2: "queueOf st2 dId = q"
    using ef(6) by (simp add: queueOf_def)
  have idt: "id_t (heap st2 r) = id_t (heap st r)" for r
    using ef(4)[of r] P by simp
  have pr: "priorityScore (heap st2 r) = priorityScore (heap st r)" for r
    using ef(5)[of r] P by simp
  have g1: "list_all2 (grown {id_t (heap st t)}) (slots (doctor s)) (slots (doctor st2))"
    using ef(2) P by simp
  have pl: "list_all (placed st2) (take (Suc a) ?q0)"
  proof -
    have "placed st2 u" if "u \<in> set (take a ?q0)" for u
    proof (cases "u = t")
      case True
      with ef(1) show ?thesis by simp
    next
      case False
      from that P have "placed s u" by (simp add: list_all_iff)
      moreover have "placed ?s1 u = placed s u" by (rule placed_cong) simp_all
      ultimately have "placed ?s1 u" by simp
      moreover from ef(2) have
        "list_all2 (grown {id_t (heap s t)}) (slots (doctor ?s1)) (slots (doctor st2))" by simp
      moreover from ef(3)[OF False] have "heap st2 u = heap ?s1 u" by simp
      ultimately show ?thesis by (rule placed_grown)
    qed
    with ef(1) show ?thesis by (simp add: tk list_all_iff)
  qed
  have ot: "\<forall>u. u \<notin> set (take (Suc a) ?q0) \<longrightarrow> heap st2 u = heap st u"
    using ef(3) P by (simp add: tk)
  have "list_all2 (grown (id_t ` heap st ` set (take a ?q0) \<union> {id_t (heap st t)}))
      (slots (doctor st)) (slots (doctor st2))"
    using P g1 by (blast intro: list_all2_grown_trans)
  then have gr: "list_all2 (grown (id_t ` heap st ` set (take (Suc a) ?q0)))
      (slots (doctor st)) (slots (doctor st2))"
    by (simp add: tk Un_commute)
  from a q2 pl ot idt pr gr
  show "a + 1 \<le> length ?q0 \<and> queueOf st2 dId = drop (a + 1) ?q0
        \<and> list_all (placed st2) (take (a + 1) ?q0)
        \<and> (\<forall>t. t \<notin> set (take (a + 1) ?q0) \<longrightarrow> heap st2 t = heap st t)
        \<and> (\<forall>r. id_t (heap st2 r) = id_t (heap st r))
        \<and> (\<forall>r. priorityScore (heap st2 r) = priorityScore (heap st r))
        \<and> list_all2 (grown (id_t ` heap st ` set (take (a + 1) ?q0)))
             (slots (doctor st)) (slots (doctor st2))"
    by simp
next
  fix s :: engine_state and a t q
  let ?q0 = "queueOf st dId"
  let ?s1 = "s\<lparr>queues := (queues s)(dId \<mapsto> q)\<rparr>"
  let ?s' = "enqueue dId t ?s1"
  assume P: "a \<le> length ?q0 \<and> queueOf s dId = drop a ?q0
        \<and> list_all (placed s) (take a ?q0)
        \<and> (\<forall>t. t \<notin> set (take a ?q0) \<longrightarrow> heap s t = heap st t)
        \<and> (\<forall>r. id_t (heap s r) = id_t (heap st r))
        \<and> (\<forall>r. priorityScore (heap s r) = priorityScore (heap st r))
        \<and> list_all2 (grown (id_t ` heap st ` set (take a ?q0)))
             (slots (doctor st)) (slots (doctor s))"
    and qs: "queues s dId = Some (t # q)"
    and al: "allocateToken now t ?s1 = (None, ?s1)"
  from P qs have dr: "drop a ?q0 = t # q" by (simp add: queueOf_def)
  then have a: "a < length ?q0" "?q0 ! a = t" "drop (Suc a) ?q0 = q"
    by (auto dest: drop_eq_ConsD)
  have q1: "queueOf ?s1 dId = q" by (simp add: queueOf_def)
  have "mset ?q0 = mset (take a ?q0) + mset (drop a ?q0)"
    by (metis append_take_drop_id mset_append)
  then have m: "mset ?q0 = mset (take a ?q0) + mset (queueOf ?s' dId)"
    by (simp add: mset_queueOf_enqueue q1 dr)
  have "placed ?s' = placed s"
    by (rule ext, rule placed_cong) simp_all
  then have pl: "list_all (placed ?s') (take a ?q0)"
    using P by simp
  have ot: "\<forall>u. u \<notin> set (take a ?q0) \<longrightarrow> heap ?s' u = heap st u"
    using P by simp
  have gr: "list_all2 (grown (id_t ` heap st ` set (take a ?q0)))
      (slots (doctor st)) (slots (doctor ?s'))"
    using P by simp
  have nr: "list_all (\<lambda>s. \<not> hasRoom s) (slots (doctor ?s'))"
    using allocateToken_None_noRoom[OF al] by simp
  have pb: "queueOf ?s' dId =
      queueOf (enqueue dId (?q0 ! a) (?s'\<lparr>queues := (queues ?s')(dId \<mapsto> drop (Suc a) ?q0)\<rparr>)) dId"
    by (simp add: queueOf_enqueue a q1) (simp add: queueOf_def)
  have so: "queueSorted (heap ?s') (queueOf ?s' dId)" if "queueSorted (heap st) ?q0"
  proof -
    have h: "queueSorted (heap s) = queueSorted (heap st)"
      using P by (auto simp: queueSorted_def fun_eq_iff)
    from that have "queueSorted (heap st) (t # q)"
      unfolding dr[symmetric] queueSorted_def by (rule sorted_wrt_drop)
    then have "queueSorted (heap s) q" by (simp add: h queueSorted_def)
    then show ?thesis
      using insertIndex_sorted[of "heap s" q t] by (simp add: queueOf_enqueue q1)
  qed
  show "drained dId st ?s' a"
    unfolding drained_def using a(1) m pl ot gr nr pb so by simp
next
  fix s :: engine_state and a
  let ?q0 = "queueOf st dId"
  assume P: "a \<le> length ?q0 \<and> queueOf s dId = drop a ?q0
        \<and> list_all (placed s) (take a ?q0)
        \<and> (\<forall>t. t \<notin> set (take a ?q0) \<longrightarrow> heap s t = heap st t)
        \<and> (\<forall>r. id_t (heap s r) = id_t (heap st r))
        \<and> (\<forall>r. priorityScore (heap s r) = priorityScore (heap st r))
        \<and> list_all2 (grown (id_t ` heap st ` set (take a ?q0)))
             (slots (doctor st)) (slots (doctor s))"
    and e: "queueOf s dId = []"
  then have "a = length ?q0" by simp
  with P e show "drained dId st s a"
    by (simp add: drained_def queueSorted_def)
qed

lemma allocateFromQueue_returns: "\<exists>n st'. allocateFromQueue now dId st = Some (n, st')"
  using allocateFromQueue_drained[of now dId st] by blast

text \<open>
  C7: \<open>allocateFromQueue\<close> never drops a token. It returns some \<open>n\<close>; the first \<open>n\<close> entries
  of the queue are now placed: each is ALLOCATED and linked to a slot of the doctor whose
  occupant list holds its identity. Every other token is as it was, and the tokens queued
  before the call are, as a multiset, these \<open>n\<close> together with the tokens queued after
  the call. When it stops before the queue is empty, no slot has room (the placement
  failed) and the queue is the rest with the dequeued token pushed back by \<open>enqueue\<close>. A
  queue in descending order of priority is still in descending order afterwards.
\<close>

theorem C7_allocateFromQueue_keeps_tokens:
  "\<exists>n st'. allocateFromQueue now dId st = Some (n, st')
     \<and> n \<le> length (queueOf st dId)
     \<and> mset (queueOf st dId) = mset (take n (queueOf st dId)) + mset (queueOf st' dId)
     \<and> list_all (\<lambda>t. status (heap st' t) = ALLOCATED
            \<and> (\<exists>j. slotIndex (heap st' t) = Some j \<and> j < length (slots (doctor st'))
                  \<and> id_t (heap st' t) \<in> set (allocatedTokenIds (slots (doctor st') ! j))))
          (take n (queueOf st dId))
     \<and> (\<forall>t. t \<notin> set (take n (queueOf st dId)) \<longrightarrow> heap st' t = heap st t)
     \<and> (n < length (queueOf st dId) \<longrightarrow>
          list_all (\<lambda>s. \<not> hasRoom s) (slots (doctor st'))
          \<and> queueOf st' dId =
              queueOf (enqueue dId (queueOf st dId ! n)
                (st'\<lparr>queues := (queues st')(dId \<mapsto> drop (Suc n) (queueOf st dId))\<rparr>)) dId)
     \<and> (queueSorted (heap st) (queueOf st dId) \<longrightarrow> queueSorted (heap st') (queueOf st' dId))"
proof -
  from allocateFromQueue_drained[of now dId st] obtain n st'
    where r: "allocateFromQueue now dId st = Some (n, st')" and d: "drained dId st st' n"
    by blast
  have "placed st' t \<Longrightarrow> status (heap st' t) = ALLOCATED
      \<and> (\<exists>j. slotIndex (heap st' t) = Some j \<and> j < length (slots (doctor st'))
            \<and> id_t (heap st' t) \<in> set (allocatedTokenIds (slots (doctor st') ! j)))" for t
    by (auto simp: placed_def split: option.splits)
  with d have "list_all (\<lambda>t. status (heap st' t) = ALLOCATED
            \<and> (\<exists>j. slotIndex (heap st' t) = Some j \<and> j < length (slots (doctor st'))
                  \<and> id_t (heap st' t) \<in> set (allocatedTokenIds (slots (doctor st') ! j))))
          (take n (queueOf st dId))"
    unfolding drained_def list_all_iff by blast
  with r d show ?thesis unfolding drained_def by blast
qed

lemma queueState_sorted: "queueSorted (heap queueState) (queueOf queueState ''DOC1'')"
  by (simp add: queueState_def example_defs queueOf_def queueSorted_def)

lemma queueState_drain:
  "\<exists>st'. allocateFromQueue 5 ''DOC1'' queueState = Some (1, st') \<and> queueOf st' ''DOC1'' = [0]
     \<and> allocatedTokenIds (slots (doctor st') ! 0) = [''B'']
     \<and> slotIndex (heap st' 1) = Some 0"
  unfolding allocateFromQueue_def
  apply (subst allocateLoop.simps)
  apply (subst allocateLoop.simps)
  apply (simp add: queueState_def example_defs dequeue_def allocateToken_def enqueue_def
      queueOf_def)
  done

theorem C7_allocateFromQueue_keeps_tokens_witness:
  "queueSorted (heap queueState) (queueOf queueState ''DOC1'')
   \<and> (\<exists>st'. allocateFromQueue 5 ''DOC1'' queueState = Some (1, st')
         \<and> mset (queueOf queueState ''DOC1'')
             = mset (take 1 (queueOf queueState ''DOC1'')) + mset (queueOf st' ''DOC1'')
         \<and> status (heap st' 1) = ALLOCATED \<and> slotIndex (heap st' 1) = Some 0
         \<and> id_t (heap st' 1) \<in> set (allocatedTokenIds (slots (doctor st') ! 0))
         \<and> heap st' 0 = heap queueState 0
         \<and> list_all (\<lambda>s. \<not> hasRoom s) (slots (doctor st'))
         \<and> queueSorted (heap st') (queueOf st' ''DOC1''))"
proof -
  let ?q = "queueOf queueState ''DOC1''"
  have q: "?q = [1, 0]"
    by (simp add: queueState_def exampleState_def queueOf_def)
  from queueState_drain obtain st' where
    dr: "allocateFromQueue 5 ''DOC1'' queueState = Some (1, st')"
    and si: "slotIndex (heap st' 1) = Some 0"
    by blast
  from C7_allocateFromQueue_keeps_tokens[of 5 "''DOC1''" queueState] dr
  have m: "mset ?q = mset (take 1 ?q) + mset (queueOf st' ''DOC1'')"
    and pl: "list_all (\<lambda>t. status (heap st' t) = ALLOCATED
            \<and> (\<exists>j. slotIndex (heap st' t) = Some j \<and> j < length (slots (doctor st'))
                  \<and> id_t (heap st' t) \<in> set (allocatedTokenIds (slots (doctor st') ! j))))
          (take 1 ?q)"
    and ot: "\<forall>t. t \<notin> set (take 1 ?q) \<longrightarrow> heap st' t = heap queueState t"
    and st: "1 < length ?q \<longrightarrow> list_all (\<lambda>s. \<not> hasRoom s) (slots (doctor st'))"
    and so: "queueSorted (heap queueState) ?q \<longrightarrow> queueSorted (heap st') (queueOf st' ''DOC1'')"
    by simp_all
  from pl si have a: "status (heap st' 1) = ALLOCATED"
    "id_t (heap st' 1) \<in> set (allocatedTokenIds (slots (doctor st') ! 0))"
    unfolding q by simp_all
  from ot have b: "heap st' 0 = heap queueState 0"
    unfolding q by simp
  from st have c: "list_all (\<lambda>s. \<not> hasRoom s) (slots (doctor st'))"
    unfolding q by simp
  from so queueState_sorted have d: "queueSorted (heap st') (queueOf st' ''DOC1'')"
    by simp
  from dr m a si b c d queueState_sorted show ?thesis by blast
qed

section \<open>The capacity bound\<close>

text \<open>In a slot whose capacity is a whole number, the test \<open>length < capacity\<close> leaves room
  for one more token.\<close>

lemma wholeSlot_pushToken:
  assumes "wholeSlot slot" and "real (length (allocatedTokenIds slot)) < capacity slot"
  shows "wholeSlot (pushToken tokenId slot)"
proof -
  from assms(1) obtain n :: nat where n: "capacity slot = real n"
    by (auto simp: wholeSlot_def Nats_def)
  with assms(2) have "length (allocatedTokenIds slot) < n" by simp
  then have "real (length (allocatedTokenIds slot) + 1) \<le> real n"
    by simp
  with assms(1) n show ?thesis
    by (simp add: wholeSlot_def capacityOk_def pushToken_def Let_def)
qed

lemma wholeSlot_removeToken: "wholeSlot slot \<Longrightarrow> wholeSlot (removeToken tokenId slot)"
  by (auto simp: wholeSlot_def capacityOk_def removeToken_def Let_def length_remove1)

lemma wholeSlot_clear: "wholeSlot slot \<Longrightarrow> wholeSlot (slot\<lparr>allocatedTokenIds := []\<rparr>)"
  by (auto simp: wholeSlot_def capacityOk_def Nats_def)

lemma list_all_nth: "list_all P xs \<Longrightarrow> i < length xs \<Longrightarrow> P (xs ! i)"
  by (simp add: list_all_length)

lemma list_all_update: "list_all P xs \<Longrightarrow> P x \<Longrightarrow> list_all P (xs[i := x])"
  by (auto simp: list_all_iff dest: set_update_subset_insert[THEN subsetD])

lemma wholeInvariant_allocateToken:
  "wholeInvariant st \<Longrightarrow> wholeInvariant (snd (allocateToken now t st))"
  by (auto simp: allocateToken_def Let_def wholeInvariant_def hasRoom_def
      split: option.splits dest!: firstAvailable_Some
      intro!: list_all_update wholeSlot_pushToken intro: list_all_nth)

lemma wholeInvariant_allocateFromQueue:
  assumes "wholeInvariant st"
  shows "\<exists>n st'. allocateFromQueue now dId st = Some (n, st') \<and> wholeInvariant st'"
  unfolding allocateFromQueue_def
proof (rule allocateLoop_rule[where P = "\<lambda>s a. wholeInvariant s" and Q = "\<lambda>s a. wholeInvariant s"])
  fix s :: engine_state and a t q i st2
  assume "wholeInvariant s"
    and "allocateToken now t (s\<lparr>queues := (queues s)(dId \<mapsto> q)\<rparr>) = (Some i, st2)"
  then show "wholeInvariant st2"
    using wholeInvariant_allocateToken[of "s\<lparr>queues := (queues s)(dId \<mapsto> q)\<rparr>" now t]
    by (simp add: wholeInvariant_def)
qed (use assms in \<open>simp_all add: wholeInvariant_def\<close>)


lemma requeue_doctor [simp]: "doctor (requeue dId ts st) = doctor st"
  by (induction ts arbitrary: st) simp_all

lemma requeue_heap [simp]: "heap (requeue dId ts st) = heap st"
  by (induction ts arbitrary: st) simp_all

lemma freeSlots_slots:
  "fst (freeSlots tokens ss h acc) = map (\<lambda>slot. slot\<lparr>allocatedTokenIds := []\<rparr>) ss"
proof (induction ss arbitrary: h acc)
  case Nil
  then show ?case by simp
next
  case (Cons s ss)
  obtain h1 r1 where ft: "freeTokens tokens (allocatedTokenIds s) h acc = (h1, r1)"
    by (cases "freeTokens tokens (allocatedTokenIds s) h acc")
  obtain ss' h2 r2 where fs: "freeSlots tokens ss h1 r1 = (ss', h2, r2)"
    by (cases "freeSlots tokens ss h1 r1")
  from Cons.IH[of h1 r1] fs have "ss' = map (\<lambda>slot. slot\<lparr>allocatedTokenIds := []\<rparr>) ss"
    by simp
  then show ?case by (simp add: ft fs)
qed

lemma freeAffected_slots:
  "slots (doctor (snd (freeAffected i tokens st)))
     = take i (slots (doctor st)) @ map (\<lambda>slot. slot\<lparr>allocatedTokenIds := []\<rparr>) (drop i (slots (doctor st)))"
  using freeSlots_slots[of tokens "drop i (slots (doctor st))" "heap st" "[]"]
  by (auto simp: freeAffected_def Let_def split: prod.splits)

lemma wholeInvariant_freeAffected:
  assumes "wholeInvariant st"
  shows "wholeInvariant (snd (freeAffected i tokens st))"
proof -
  have "list_all wholeSlot (take i (slots (doctor st)))"
    using assms by (auto simp: wholeInvariant_def list_all_iff dest: in_set_takeD)
  moreover have "list_all wholeSlot
      (map (\<lambda>slot. slot\<lparr>allocatedTokenIds := []\<rparr>) (drop i (slots (doctor st))))"
    using assms
    by (auto simp: wholeInvariant_def list_all_iff dest: in_set_dropD intro!: wholeSlot_clear)
  ultimately show ?thesis
    by (simp add: wholeInvariant_def freeAffected_slots)
qed

lemma wholeInvariant_reallocate:
  assumes "wholeInvariant st"
  shows "\<exists>r st'. reallocate now dId i tokens st = Some (r, st') \<and> wholeInvariant st'"
proof -
  obtain r st1 where fa: "freeAffected i tokens st = (r, st1)"
    by (cases "freeAffected i tokens st")
  then have "wholeInvariant st1"
    using wholeInvariant_freeAffected[OF assms, of i tokens] by simp
  then have "wholeInvariant (requeue dId r st1)"
    by (simp add: wholeInvariant_def)
  from wholeInvariant_allocateFromQueue[OF this, of now dId]
  show ?thesis by (auto simp: reallocate_def fa)
qed

lemma wholeInvariant_freeTokenFromSlot:
  assumes "wholeInvariant st" and "freeTokenFromSlot t st = Inr st'"
  shows "wholeInvariant st'"
proof (cases "slotIndex (heap st t)")
  case None
  with assms show ?thesis by (simp add: freeTokenFromSlot_def Let_def)
next
  case (Some i)
  let ?ss = "slots (doctor st)"
  from assms(2) Some have i: "i < length ?ss"
    and st': "slots (doctor st') = ?ss[i := removeToken (id_t (heap st t)) (?ss ! i)]"
    by (auto simp: freeTokenFromSlot_def Let_def split: if_splits)
  have "wholeSlot (?ss ! i)"
    using assms(1) i by (auto simp: wholeInvariant_def intro: list_all_nth)
  then have "wholeSlot (removeToken (id_t (heap st t)) (?ss ! i))"
    by (rule wholeSlot_removeToken)
  with assms(1) show ?thesis
    by (auto simp: wholeInvariant_def st' intro!: list_all_update)
qed

lemma firstWithQuota_Some:
  "firstWithQuota m ss i = Some k \<Longrightarrow>
     i \<le> k \<and> k - i < length ss
     \<and> real (length (allocatedTokenIds (ss ! (k - i)))) < capacity (ss ! (k - i))
     \<and> emergencyCount (ss ! (k - i)) < m \<and> status_s (ss ! (k - i)) \<noteq> BLOCKED"
proof (induction ss arbitrary: i)
  case Nil
  then show ?case by simp
next
  case (Cons s ss)
  show ?case
  proof (cases "status_s s \<noteq> BLOCKED \<and> real (length (allocatedTokenIds s)) < capacity s
      \<and> emergencyCount s < m")
    case True
    with Cons.prems show ?thesis by simp
  next
    case False
    with Cons.prems have "firstWithQuota m ss (Suc i) = Some k" by auto
    from Cons.IH[OF this] show ?thesis by (auto simp: Suc_diff_Suc less_eq_Suc_le)
  qed
qed

lemma wholeInvariant_allocateWithQuotaCheck:
  "wholeInvariant st \<Longrightarrow> wholeInvariant (snd (allocateWithQuotaCheck now t st))"
  by (auto simp: allocateWithQuotaCheck_def Let_def wholeInvariant_def
      split: option.splits dest!: firstWithQuota_Some
      intro!: list_all_update wholeSlot_pushToken intro: list_all_nth)

lemma wholeSlot_emergencyCount [simp]:
  "wholeSlot (slot\<lparr>emergencyCount := n\<rparr>) = wholeSlot slot"
  by (simp add: wholeSlot_def capacityOk_def)

lemma wholeInvariant_incrementEmergencyCount:
  assumes "wholeInvariant st"
  shows "wholeInvariant (incrementEmergencyCount i st)"
proof (cases "i < length (slots (doctor st))")
  case True
  with assms have "wholeSlot (slots (doctor st) ! i)"
    by (auto simp: wholeInvariant_def intro: list_all_nth)
  with assms show ?thesis
    by (auto simp: incrementEmergencyCount_def Let_def wholeInvariant_def
        intro!: list_all_update)
next
  case False
  with assms show ?thesis
    by (simp add: incrementEmergencyCount_def Let_def wholeInvariant_def list_update_beyond)
qed

lemma wholeInvariant_queueEmergency:
  "wholeInvariant st \<Longrightarrow> wholeInvariant (queueEmergency t st)"
  by (simp add: queueEmergency_def Let_def wholeInvariant_def)

lemma wholeInvariant_allocateEmergencyToSlot:
  "wholeInvariant st \<Longrightarrow> allocateEmergencyToSlot now t i st = Inr (r, st')
     \<Longrightarrow> wholeInvariant st'"
  by (auto simp: allocateEmergencyToSlot_def Let_def wholeInvariant_def
      split: if_splits intro!: list_all_update wholeSlot_pushToken intro: list_all_nth)

lemma wholeInvariant_shiftToken:
  assumes "wholeInvariant st"
    and "shiftToken now t i j st = Inr st'"
    and "real (length (allocatedTokenIds (slots (doctor st) ! j))) < capacity (slots (doctor st) ! j)"
  shows "wholeInvariant st'"
proof -
  let ?ss = "slots (doctor st)"
  let ?id = "id_t (heap st t)"
  let ?s1 = "?ss[i := removeToken ?id (?ss ! i)]"
  from assms(2) have ij: "i < length ?ss" "j < length ?ss"
    and st': "slots (doctor st') = ?s1[j := pushToken ?id (?s1 ! j)]"
    by (auto simp: shiftToken_def Let_def split: if_splits)
  have ok: "wholeSlot (?ss ! i)"
    using assms(1) ij by (auto simp: wholeInvariant_def intro: list_all_nth)
  have s1: "list_all wholeSlot ?s1"
    using assms(1) ok by (auto simp: wholeInvariant_def intro!: list_all_update wholeSlot_removeToken)
  have "real (length (allocatedTokenIds (?s1 ! j))) < capacity (?s1 ! j)"
  proof (cases "j = i")
    case True
    have "length (allocatedTokenIds (removeToken ?id (?ss ! i))) \<le> length (allocatedTokenIds (?ss ! i))"
      by (simp add: removeToken_def Let_def length_remove1)
    moreover have "capacity (removeToken ?id (?ss ! i)) = capacity (?ss ! i)"
      by (simp add: removeToken_def Let_def)
    ultimately show ?thesis using True assms(3) ij by simp
  next
    case False
    then show ?thesis using assms(3) by simp
  qed
  moreover have "wholeSlot (?s1 ! j)"
    using s1 ij by (auto intro: list_all_nth)
  ultimately have "wholeSlot (pushToken ?id (?s1 ! j))"
    by (auto intro: wholeSlot_pushToken)
  with s1 show ?thesis
    by (auto simp: wholeInvariant_def st' intro!: list_all_update)
qed


lemma find_SomeD: "find P xs = Some x \<Longrightarrow> x \<in> set xs \<and> P x"
  by (auto simp: find_Some_iff)

lemma findNearbySlotWithCapacity_Some:
  assumes "findNearbySlotWithCapacity d i w = Inr (Some j)"
  shows "j < length (slots d) \<and> hasRoom (slots d ! j) \<and> j \<noteq> i"
proof (cases "find (\<lambda>k. hasRoom (slots d ! k))
    [Suc i ..< min (length (slots d)) (Suc (i + w))]")
  case (Some k)
  with assms have "k = j" by (simp add: findNearbySlotWithCapacity_def)
  with find_SomeD[OF Some] show ?thesis by auto
next
  case None
  with assms have le: "\<not> (length (slots d) < i \<and> 0 < w)"
    and f: "find (\<lambda>k. hasRoom (slots d ! k)) (rev [i - w ..< i]) = Some j"
    by (auto simp: findNearbySlotWithCapacity_def split: if_splits)
  from find_SomeD[OF f] have j: "i - w \<le> j" "j < i" "hasRoom (slots d ! j)" by auto
  with le have "j < length (slots d)" by auto
  with j show ?thesis by auto
qed

lemma findNearbySlotWithCapacity_no_error:
  "i \<le> length (slots d) \<Longrightarrow> findNearbySlotWithCapacity d i w \<noteq> Inl e"
  by (auto simp: findNearbySlotWithCapacity_def split: option.splits)

lemma shiftToken_length:
  "shiftToken now t i j st = Inr st' \<Longrightarrow> length (slots (doctor st')) = length (slots (doctor st))"
  by (auto simp: shiftToken_def Let_def split: if_splits)

lemma allocateEmergencyToSlot_ok:
  assumes "wholeInvariant st" and "i < length (slots (doctor st))"
  shows "\<exists>r st'. allocateEmergencyToSlot now t i st = Inr (r, st') \<and> wholeInvariant st'"
proof -
  have "\<exists>r st'. allocateEmergencyToSlot now t i st = Inr (r, st')"
    using assms(2) by (simp add: allocateEmergencyToSlot_def Let_def)
  then obtain r st' where eq: "allocateEmergencyToSlot now t i st = Inr (r, st')"
    by blast
  with wholeInvariant_allocateEmergencyToSlot[OF assms(1) eq] show ?thesis by blast
qed

lemma wholeInvariant_attemptReshuffleLoop:
  "wholeInvariant st \<Longrightarrow>
   \<exists>r st'. attemptReshuffleLoop now em tokens i st = Inr (r, st') \<and> wholeInvariant st'"
proof (induction now em tokens i st rule: attemptReshuffleLoop.induct)
  case (1 now em tokens i st)
  let ?slot = "slots (doctor st) ! i"
  note unf = attemptReshuffleLoop.simps[of now em tokens i st]
  show ?case
  proof (cases "i < length (slots (doctor st))")
    case False
    with "1.prems" show ?thesis by (simp add: unf)
  next
    case inrange: True
    show ?thesis
    proof (cases "status_s ?slot = BLOCKED")
      case True
      with inrange "1.prems" "1.IH"(1) show ?thesis
        by (simp add: unf)
    next
      case nb: False
      show ?thesis
      proof (cases "real (length (allocatedTokenIds ?slot)) < capacity ?slot")
        case True
        with inrange nb allocateEmergencyToSlot_ok[OF "1.prems" inrange, of now em]
        show ?thesis by (simp add: unf)
      next
        case full: False
        show ?thesis
        proof (cases "findMostFlexibleToken (heap st) tokens ?slot")
          case None
          with inrange nb full "1.prems" "1.IH"(2) show ?thesis
            by (simp add: unf)
        next
          case flex: (Some flex)
          show ?thesis
          proof (cases "findNearbySlotWithCapacity (doctor st) i RESHUFFLE_WINDOW")
            case (Inl e)
            with inrange findNearbySlotWithCapacity_no_error[of i "doctor st" RESHUFFLE_WINDOW e]
            show ?thesis by simp
          next
            case near: (Inr dest)
            show ?thesis
            proof (cases dest)
              case None
              with inrange nb full flex near "1.prems" "1.IH"(3) show ?thesis
                by (simp add: unf)
            next
              case (Some j)
              with near have j: "j < length (slots (doctor st))"
                and room: "hasRoom (slots (doctor st) ! j)"
                by (auto dest: findNearbySlotWithCapacity_Some)
              obtain st1 where sh: "shiftToken now flex i j st = Inr st1"
                using inrange j by (auto simp: shiftToken_def Let_def)
              from room have inv1: "wholeInvariant st1"
                using wholeInvariant_shiftToken[OF "1.prems"(1) sh]
                by (simp add: hasRoom_def)
              have len1: "i < length (slots (doctor st1))"
                using shiftToken_length[OF sh] inrange by simp
              have "attemptReshuffleLoop now em tokens i st
                      = allocateEmergencyToSlot now em i st1"
                using inrange nb full flex near Some sh by (simp add: unf)
              with allocateEmergencyToSlot_ok[OF inv1 len1, of now em] show ?thesis
                by simp
            qed
          qed
        qed
      qed
    qed
  qed
qed

lemma wholeInvariant_handleEmergency:
  assumes "wholeInvariant st" and "source (heap st t) = EMERGENCY"
  shows "\<exists>b st'. handleEmergency now t reshuffler otokens st = Inr (b, st') \<and> wholeInvariant st'"
proof -
  let ?st0 = "st\<lparr>heap := (heap st)(t := (heap st t)
                      \<lparr>priorityScore := calculatePriority (heap st t)\<rparr>)\<rparr>"
  have inv0: "wholeInvariant ?st0"
    using assms(1) by (simp add: wholeInvariant_def)
  obtain r st1 where aq: "allocateWithQuotaCheck now t ?st0 = (r, st1)"
    by (cases "allocateWithQuotaCheck now t ?st0")
  have inv1: "wholeInvariant st1"
    using wholeInvariant_allocateWithQuotaCheck[OF inv0, of now t] aq by simp
  show ?thesis
  proof (cases "dailyQuotaReached (doctor st)")
    case True
    with assms(2) wholeInvariant_queueEmergency[OF inv0, of t] show ?thesis
      by (auto simp: handleEmergency_def Let_def)
  next
    case nq: False
    have he: "handleEmergency now t reshuffler otokens st =
       (case r of
          Some i \<Rightarrow> Inr (True, incrementEmergencyCount i st1)
        | None \<Rightarrow>
            (case (if reshuffler then otokens else None) of
               None \<Rightarrow> Inr (False, queueEmergency t st1)
             | Some tks \<Rightarrow>
                 (case attemptReshuffle now t tks st1 of
                    Inl e \<Rightarrow> Inl e
                  | Inr (Some j, st2) \<Rightarrow> Inr (True, incrementEmergencyCount j st2)
                  | Inr (None, st2) \<Rightarrow> Inr (False, queueEmergency t st2))))"
      using nq assms(2) aq by (cases r) (simp_all add: handleEmergency_def Let_def)
    show ?thesis
    proof (cases r)
      case (Some i)
      with he wholeInvariant_incrementEmergencyCount[OF inv1, of i] show ?thesis
        by auto
    next
      case None
      show ?thesis
      proof (cases "if reshuffler then otokens else None")
        case no: None
        with he None wholeInvariant_queueEmergency[OF inv1, of t]
        show ?thesis by auto
      next
        case (Some tks)
        obtain r2 st2 where ar: "attemptReshuffle now t tks st1 = Inr (r2, st2)"
          and inv2: "wholeInvariant st2"
          using wholeInvariant_attemptReshuffleLoop[OF inv1, of now t tks 0]
          by (auto simp: attemptReshuffle_def)
        show ?thesis
        proof (cases r2)
          case r2: None
          with he None Some ar wholeInvariant_queueEmergency[OF inv2, of t]
          show ?thesis by auto
        next
          case r2: (Some j)
          with he None Some ar wholeInvariant_incrementEmergencyCount[OF inv2, of j]
          show ?thesis by auto
        qed
      qed
    qed
  qed
qed

lemma handleEmergency_not_emergency:
  "source (heap st t) \<noteq> EMERGENCY \<Longrightarrow> handleEmergency now t reshuffler otokens st = Inl NotEmergency"
  by (simp add: handleEmergency_def)


text \<open>
  With whole-number capacities the bound is kept: from a state in which every slot has a
  whole-number capacity and holds no more tokens than it, \<open>allocateToken\<close>,
  \<open>allocateFromQueue\<close>, \<open>reallocate\<close>, \<open>freeTokenFromSlot\<close>, \<open>handleEmergency\<close> and
  \<open>attemptReshuffle\<close> lead to such a state, and so does \<open>shiftToken\<close> when its destination
  has room, which is how \<open>attemptReshuffle\<close> calls it.
\<close>

lemma wholeInvariant_preserved:
  assumes "wholeInvariant st"
  shows "wholeInvariant (snd (allocateToken now token st))
    \<and> (\<exists>n st'. allocateFromQueue now dId st = Some (n, st') \<and> wholeInvariant st')
    \<and> (\<exists>r st'. reallocate now dId fromSlotIndex tokens st = Some (r, st')
          \<and> wholeInvariant st')
    \<and> (\<forall>st'. freeTokenFromSlot token st = Inr st' \<longrightarrow> wholeInvariant st')
    \<and> (source (heap st token) = EMERGENCY \<longrightarrow>
          (\<exists>b st'. handleEmergency now token reshuffler otokens st = Inr (b, st')
             \<and> wholeInvariant st'))
    \<and> (\<exists>r st'. attemptReshuffle now token tokens st = Inr (r, st') \<and> wholeInvariant st')
    \<and> (\<forall>st'. shiftToken now token fromSlotIndex toSlotIndex st = Inr st'
          \<and> hasRoom (slots (doctor st) ! toSlotIndex)
          \<longrightarrow> wholeInvariant st')"
proof -
  have "wholeInvariant (snd (allocateToken now token st))"
    using assms by (rule wholeInvariant_allocateToken)
  moreover have "\<exists>n st'. allocateFromQueue now dId st = Some (n, st') \<and> wholeInvariant st'"
    using assms by (rule wholeInvariant_allocateFromQueue)
  moreover have "\<exists>r st'. reallocate now dId fromSlotIndex tokens st = Some (r, st')
      \<and> wholeInvariant st'"
    using assms by (rule wholeInvariant_reallocate)
  moreover have "\<forall>st'. freeTokenFromSlot token st = Inr st' \<longrightarrow> wholeInvariant st'"
    using assms by (blast intro: wholeInvariant_freeTokenFromSlot)
  moreover have "source (heap st token) = EMERGENCY \<longrightarrow>
      (\<exists>b st'. handleEmergency now token reshuffler otokens st = Inr (b, st')
         \<and> wholeInvariant st')"
    using assms by (blast intro: wholeInvariant_handleEmergency)
  moreover have "\<exists>r st'. attemptReshuffle now token tokens st = Inr (r, st')
      \<and> wholeInvariant st'"
    unfolding attemptReshuffle_def using assms by (rule wholeInvariant_attemptReshuffleLoop)
  moreover have "\<forall>st'. shiftToken now token fromSlotIndex toSlotIndex st = Inr st'
      \<and> hasRoom (slots (doctor st) ! toSlotIndex)
      \<longrightarrow> wholeInvariant st'"
    using assms by (auto simp: hasRoom_def intro: wholeInvariant_shiftToken)
  ultimately show ?thesis by blast
qed

lemma wholeInvariant_capacityInvariant: "wholeInvariant st \<Longrightarrow> capacityInvariant st"
  by (simp add: wholeInvariant_def capacityInvariant_def wholeSlot_def list_all_iff)

text \<open>
  C1: from any state in which no slot holds more tokens than its capacity, every operation
  leads to such a state. The allocator does not keep this for a capacity that is not a
  whole number, and the doctor route stores any non-zero \<open>slotCapacity\<close> it is sent. With
  one empty slot of capacity 2.5 and the tokens B, A and C queued, \<open>allocateFromQueue\<close>
  places all three: \<open>2 < 2.5\<close> admits the third, and the count never equals 2.5, so the slot
  is not even marked FULL. The slot then holds three tokens for a capacity of 2.5.
\<close>

theorem C1_fractional_capacity_overfilled:
  "capacityInvariant fractionalState
   \<and> map allocatedTokenIds (slots (doctor fractionalState)) = [[]]
   \<and> queueOf fractionalState ''DOC1'' = [1, 0, 4]
   \<and> (\<exists>st'. allocateFromQueue 5 ''DOC1'' fractionalState = Some (3, st')
         \<and> map allocatedTokenIds (slots (doctor st')) = [[''B'', ''A'', ''C'']]
         \<and> map capacity (slots (doctor st')) = [5 / 2]
         \<and> map status_s (slots (doctor st')) = [AVAILABLE]
         \<and> queueOf st' ''DOC1'' = []
         \<and> \<not> capacityInvariant st')"
  unfolding allocateFromQueue_def
  apply (subst allocateLoop.simps)
  apply (subst allocateLoop.simps)
  apply (subst allocateLoop.simps)
  apply (subst allocateLoop.simps)
  apply (simp add: fractionalState_def example_defs dequeue_def allocateToken_def enqueue_def
      queueOf_def capacityInvariant_def capacityOk_def)
  done
section \<open>Emergency ceiling per slot\<close>

text \<open>The direct placement of \<open>handleEmergency\<close> keeps the ceiling: the slot it finds is
  below the ceiling before the count goes up by one.\<close>

lemma quotaInvariant_direct_placement:
  assumes "quotaInvariant st" and "allocateWithQuotaCheck now t st = (Some i, st1)"
  shows "quotaInvariant (incrementEmergencyCount i st1)"
proof -
  let ?ss = "slots (doctor st)"
  let ?m = "slotCeiling (doctor st)"
  from assms(2) have f: "firstWithQuota ?m ?ss 0 = Some i"
    and st1: "doctor st1 = (doctor st)\<lparr>slots := ?ss[i := pushToken (id_t (heap st t)) (?ss ! i)]\<rparr>"
    by (auto simp: allocateWithQuotaCheck_def Let_def split: option.splits)
  from firstWithQuota_Some[OF f] have i: "i < length ?ss" and c: "emergencyCount (?ss ! i) < ?m"
    by simp_all
  have m1: "slotCeiling (doctor st1) = ?m" by (simp add: st1 slotCeiling_def)
  let ?P = "\<lambda>slot. emergencyCount slot \<le> ?m"
  have a: "list_all ?P (slots (doctor st1))"
    using assms(1) c i
    by (auto simp: quotaInvariant_def st1 pushToken_def Let_def intro!: list_all_update)
  have "?P ((slots (doctor st1) ! i)\<lparr>emergencyCount := emergencyCount (slots (doctor st1) ! i) + 1\<rparr>)"
    using c i by (simp add: st1 pushToken_def Let_def)
  with a have "list_all ?P ((slots (doctor st1))[i := (slots (doctor st1) ! i)
      \<lparr>emergencyCount := emergencyCount (slots (doctor st1) ! i) + 1\<rparr>])"
    by (rule list_all_update)
  then show ?thesis
    by (simp add: quotaInvariant_def incrementEmergencyCount_def Let_def slotCeiling_def st1)
qed

text \<open>
  C2: handling an emergency never drives a slot's emergency count above the per-slot
  ceiling. The code does not keep this: the reshuffling fallback does not look at the
  ceiling. With one slot of capacity 3 and ceiling 1, the first emergency is placed in
  slot 0 and counted; for the second, the quota check finds no slot, \<open>attemptReshuffle\<close>
  finds spare capacity in slot 0 and allocates there, and \<open>handleEmergency\<close> counts it:
  slot 0 now counts 2 emergencies against a ceiling of 1.
\<close>

theorem C2_reshuffle_exceeds_ceiling:
  "quotaInvariant emergencyState
   \<and> (case handleEmergency 5 2 True (Some exampleTokens) emergencyState of
         Inl e \<Rightarrow> False
       | Inr (b1, st1) \<Rightarrow>
           b1 \<and> quotaInvariant st1 \<and> emergencyCount (slots (doctor st1) ! 0) = 1
           \<and> (case handleEmergency 6 3 True (Some exampleTokens) st1 of
                 Inl e \<Rightarrow> False
               | Inr (b2, st2) \<Rightarrow>
                   b2 \<and> slotCeiling (doctor st2) = 1
                   \<and> emergencyCount (slots (doctor st2) ! 0) = 2
                   \<and> \<not> quotaInvariant st2))"
  by (simp add: emergencyState_def example_defs quotaInvariant_def slotCeiling_def
      handleEmergency_def dailyQuotaReached_def countDailyEmergencies_def
      allocateWithQuotaCheck_def incrementEmergencyCount_def attemptReshuffle_def
      allocateEmergencyToSlot_def)

section \<open>Slot status as a derived view\<close>

text \<open>The paths that add or remove one token do keep the status derived: \<open>allocateToken\<close>
  sets FULL at capacity, \<open>freeTokenFromSlot\<close> reverts FULL to AVAILABLE.\<close>

lemma statusDerived_pushToken:
  "statusDerived slot \<Longrightarrow> status_s slot \<noteq> BLOCKED
     \<Longrightarrow> real (length (allocatedTokenIds slot)) < capacity slot
     \<Longrightarrow> statusDerived (pushToken tokenId slot)"
  by (auto simp: statusDerived_def pushToken_def Let_def split: if_splits)

lemma statusDerived_removeToken:
  "statusDerived slot \<Longrightarrow> capacityOk slot \<Longrightarrow> statusDerived (removeToken tokenId slot)"
  by (auto simp: statusDerived_def removeToken_def capacityOk_def Let_def length_remove1
      split: if_splits)

lemma statusInvariant_allocateToken:
  "statusInvariant st \<Longrightarrow> statusInvariant (snd (allocateToken now t st))"
proof (cases "firstAvailable (slots (doctor st)) 0")
  case None
  assume "statusInvariant st"
  with None show ?thesis by (simp add: allocateToken_def Let_def)
next
  case (Some i)
  assume inv: "statusInvariant st"
  from firstAvailable_Some[OF Some] have i: "i < length (slots (doctor st))"
    and room: "hasRoom (slots (doctor st) ! i)" by simp_all
  from inv i have "statusDerived (slots (doctor st) ! i)"
    by (auto simp: statusInvariant_def intro: list_all_nth)
  with room have "statusDerived (pushToken (id_t (heap st t)) (slots (doctor st) ! i))"
    by (auto simp: hasRoom_def intro: statusDerived_pushToken)
  with inv Some show ?thesis
    by (auto simp: allocateToken_def Let_def statusInvariant_def intro!: list_all_update)
qed

lemma statusInvariant_freeTokenFromSlot:
  assumes "statusInvariant st" and "capacityInvariant st"
    and "freeTokenFromSlot t st = Inr st'"
  shows "statusInvariant st'"
proof (cases "slotIndex (heap st t)")
  case None
  with assms show ?thesis by (simp add: freeTokenFromSlot_def Let_def)
next
  case (Some i)
  let ?ss = "slots (doctor st)"
  from assms(3) Some have i: "i < length ?ss"
    and st': "slots (doctor st') = ?ss[i := removeToken (id_t (heap st t)) (?ss ! i)]"
    by (auto simp: freeTokenFromSlot_def Let_def split: if_splits)
  have "statusDerived (?ss ! i)" "capacityOk (?ss ! i)"
    using assms(1,2) i
    by (auto simp: statusInvariant_def capacityInvariant_def intro: list_all_nth)
  then have "statusDerived (removeToken (id_t (heap st t)) (?ss ! i))"
    by (rule statusDerived_removeToken)
  with assms(1) show ?thesis
    by (auto simp: statusInvariant_def st' intro!: list_all_update)
qed

text \<open>
  C3: after every operation, a slot that is not BLOCKED is FULL exactly when it is at
  capacity. The code does not keep this after a delay: \<open>reallocate\<close> empties the slots
  and leaves their status as it was. With two full slots of capacity 1 that start 10 and
  40 minutes from now, a delay of 30 minutes blocks the first slot; both slots are emptied
  and both tokens requeued; the second slot is still FULL with no occupant, so the drain
  places nobody.
\<close>

theorem C3_delay_leaves_stale_full:
  "statusInvariant twoFullState
   \<and> (case handleDoctorDelay 0 30 exampleTokens twoFullState of
         None \<Rightarrow> False
       | Some (r, st') \<Rightarrow>
           r = [1, 0]
           \<and> map status_s (slots (doctor st')) = [BLOCKED, FULL]
           \<and> map allocatedTokenIds (slots (doctor st')) = [[], []]
           \<and> map capacity (slots (doctor st')) = [1, 1]
           \<and> map (\<lambda>t. status (heap st' t)) r = [REQUEUED, REQUEUED]
           \<and> queueOf st' ''DOC1'' = [1, 0]
           \<and> \<not> statusInvariant st')"
  apply (simp add: twoFullState_def example_defs statusInvariant_def statusDerived_def
      handleDoctorDelay_def delayEnd_def timeClip_def double_defs startsBefore_def
      reallocate_def freeAffected_def allocateFromQueue_def enqueue_def)
  apply (subst allocateLoop.simps)
  apply (simp add: dequeue_def allocateToken_def enqueue_def queueOf_def statusInvariant_def
      statusDerived_def)
  done


end
